theory Spec2Isabelle
  imports Main
begin

section \<open>Constants and data structures of server.py\<close>

definition MAX_CLIENTS :: nat where
  "MAX_CLIENTS = 4"

definition GRID_ROWS :: int where
  "GRID_ROWS = 5"

definition GRID_COLS :: int where
  "GRID_COLS = 5"

text \<open>A player is the dict \<^verbatim>\<open>{'x', 'y', 'hp', 'active'}\<close>; Python ints are unbounded.\<close>

record player =
  x :: int
  y :: int
  hp :: int
  active :: bool

text \<open>The dict \<^verbatim>\<open>g_gameState\<close>: a list of rows of characters, the roster, the occupant count.\<close>

record game_state =
  grid :: "char list list"
  players :: "player list"
  clientCount :: int

text \<open>
  A socket object is identified by a number. The server state is \<^verbatim>\<open>g_gameState\<close> together
  with the list \<^verbatim>\<open>g_clientSockets\<close> (\<open>None\<close> for a free slot), the sockets on which
  \<^verbatim>\<open>close()\<close> has been called, and the messages handed to the transport so far, oldest first.
\<close>

type_synonym sock = nat

record server = game_state +
  g_clientSockets :: "sock option list"
  closed :: "sock list"
  sent :: "(sock \<times> string) list"

text \<open>Assignment \<^verbatim>\<open>grid[r][c] = v\<close> at indices that are in range by construction.\<close>

definition grid_put :: "char list list \<Rightarrow> nat \<Rightarrow> nat \<Rightarrow> char \<Rightarrow> char list list" where
  "grid_put g r c v = g[r := (g ! r)[c := v]]"

section \<open>initGameState\<close>

definition initGameState :: game_state where
  "initGameState =
     (let grid = replicate (nat GRID_ROWS) (replicate (nat GRID_COLS) (CHR ''.''));
          grid = grid_put grid 2 2 (CHR ''#'');
          grid = grid_put grid 1 3 (CHR ''#'');
          grid = grid_put grid 3 1 (CHR ''+'');
          grid = grid_put grid 0 4 (CHR ''+'');
          grid = grid_put grid 1 3 (CHR ''+'');
          grid = grid_put grid 2 3 (CHR ''+'');
          players = replicate MAX_CLIENTS \<lparr>x = - 1, y = - 1, hp = 100, active = False\<rparr>
      in \<lparr>grid = grid, players = players, clientCount = 0\<rparr>)"

text \<open>The server as \<^verbatim>\<open>main\<close> has it after \<^verbatim>\<open>initGameState()\<close>: every registry slot free.\<close>

definition initServer :: server where
  "initServer = game_state.extend initGameState
     \<lparr>g_clientSockets = replicate MAX_CLIENTS None, closed = [], sent = []\<rparr>"

section \<open>Python values: indexing, exceptions, strings\<close>

datatype exn = IndexError | AttributeError | SocketError | TypeError | UnicodeDecodeError

text \<open>
  A step of the server either completes or raises; the mutations made before the raise stay
  in the state, as they do in Python.
\<close>

datatype outcome = Ok server | Raised exn server

fun and_then :: "outcome \<Rightarrow> (server \<Rightarrow> outcome) \<Rightarrow> outcome" where
  "and_then (Ok st) f = f st"
| "and_then (Raised e st) f = Raised e st"

fun state_of :: "outcome \<Rightarrow> server" where
  "state_of (Ok st) = st"
| "state_of (Raised e st) = st"

fun completed :: "outcome \<Rightarrow> bool" where
  "completed (Ok st) = True"
| "completed (Raised e st) = False"

text \<open>Python list indexing: a negative index counts from the end, anything else out of
  range raises IndexError (here \<open>None\<close>).\<close>

definition py_index :: "nat \<Rightarrow> int \<Rightarrow> nat option" where
  "py_index n i =
     (if 0 \<le> i \<and> i < int n then Some (nat i)
      else if i < 0 \<and> - int n \<le> i then Some (nat (int n + i))
      else None)"

definition grid_get :: "char list list \<Rightarrow> int \<Rightarrow> int \<Rightarrow> char option" where
  "grid_get g r c =
     (case py_index (length g) r of
        None \<Rightarrow> None
      | Some r' \<Rightarrow>
          (case py_index (length (g ! r')) c of
             None \<Rightarrow> None
           | Some c' \<Rightarrow> Some (g ! r' ! c')))"

definition grid_set :: "char list list \<Rightarrow> int \<Rightarrow> int \<Rightarrow> char \<Rightarrow> char list list option" where
  "grid_set g r c v =
     (case py_index (length g) r of
        None \<Rightarrow> None
      | Some r' \<Rightarrow>
          (case py_index (length (g ! r')) c of
             None \<Rightarrow> None
           | Some c' \<Rightarrow> Some (grid_put g r' c' v)))"

text \<open>\<^verbatim>\<open>chr(ord('A') + i)\<close>\<close>

definition marker :: "nat \<Rightarrow> char" where
  "marker i = char_of (of_char (CHR ''A'') + i)"

definition nl :: char where
  "nl = CHR 0x0A"

text \<open>\<^verbatim>\<open>str(n)\<close> for integers.\<close>

fun str_nat :: "nat \<Rightarrow> string" where
  "str_nat n =
     (if n < 10 then [char_of (of_char (CHR ''0'') + n)]
      else str_nat (n div 10) @ [char_of (of_char (CHR ''0'') + n mod 10)])"

declare str_nat.simps [simp del]

definition str_int :: "int \<Rightarrow> string" where
  "str_int i = (if i < 0 then CHR ''-'' # str_nat (nat (- i)) else str_nat (nat i))"

text \<open>\<^verbatim>\<open>s.startswith(p)\<close> and \<^verbatim>\<open>sub in s\<close>\<close>

fun startswith :: "string \<Rightarrow> string \<Rightarrow> bool" where
  "startswith s [] = True"
| "startswith [] (p # ps) = False"
| "startswith (c # cs) (p # ps) = (c = p \<and> startswith cs ps)"

fun contains :: "string \<Rightarrow> string \<Rightarrow> bool" where
  "contains sub [] = (sub = [])"
| "contains sub (c # cs) = (startswith (c # cs) sub \<or> contains sub cs)"

text \<open>\<^verbatim>\<open>s.split(' ')\<close>: the pieces between single spaces, empty pieces kept.\<close>

fun split_space :: "string \<Rightarrow> string list" where
  "split_space [] = [[]]"
| "split_space (c # cs) =
     (if c = CHR '' '' then [] # split_space cs
      else (case split_space cs of
              [] \<Rightarrow> [[c]]
            | w # ws \<Rightarrow> (c # w) # ws))"

text \<open>
  A text is a Python \<^verbatim>\<open>str\<close> whose code points are below 256, one \<open>char\<close> for each code
  point. Of these, \<^verbatim>\<open>str.strip()\<close> and \<^verbatim>\<open>str.split()\<close> treat as whitespace the space, the
  controls 9 to 13 and 28 to 31, the next-line control U+0085 and the no-break space U+00A0.
  Texts with a code point from 256 on are not modelled.
\<close>

definition is_space :: "char \<Rightarrow> bool" where
  "is_space c = (c \<in> set [CHR 0x20, CHR 0x09, CHR 0x0A, CHR 0x0B, CHR 0x0C, CHR 0x0D,
                          CHR 0x1C, CHR 0x1D, CHR 0x1E, CHR 0x1F, CHR 0x85, CHR 0xA0])"

definition strip :: "string \<Rightarrow> string" where
  "strip s = rev (dropWhile is_space (rev (dropWhile is_space s)))"

text \<open>\<^verbatim>\<open>xs.index(a)\<close>: the first position holding \<open>a\<close>.\<close>

fun index_of :: "'a list \<Rightarrow> 'a \<Rightarrow> nat option" where
  "index_of [] a = None"
| "index_of (b # bs) a = (if b = a then Some 0 else map_option Suc (index_of bs a))"

section \<open>The transport\<close>

text \<open>
  The network is a parameter: \<open>broken s\<close> says that a send on socket \<open>s\<close> raises
  \<^verbatim>\<open>socket.error\<close>. A send on a socket that has been closed raises as well.
\<close>

definition can_send :: "(sock \<Rightarrow> bool) \<Rightarrow> server \<Rightarrow> sock \<Rightarrow> bool" where
  "can_send broken st s = (\<not> broken s \<and> s \<notin> set (closed st))"

definition deliver :: "server \<Rightarrow> sock \<Rightarrow> string \<Rightarrow> server" where
  "deliver st s m = st\<lparr>sent := sent st @ [(s, m)]\<rparr>"

text \<open>
  The handler of a failed send in broadcastState and in SAY:
  \<^verbatim>\<open>sock.close(); g_clientSockets[g_clientSockets.index(sock)] = None\<close>. The socket was
  read from the list just before, so \<^verbatim>\<open>index\<close> finds it.
\<close>

definition drop_socket :: "server \<Rightarrow> sock \<Rightarrow> server" where
  "drop_socket st s =
     (let st = st\<lparr>closed := s # closed st\<rparr>
      in case index_of (g_clientSockets st) (Some s) of
           None \<Rightarrow> st
         | Some k \<Rightarrow> st\<lparr>g_clientSockets := (g_clientSockets st)[k := None]\<rparr>)"

section \<open>refreshPlayerPositions, buildStateString, broadcastState\<close>

definition clear_cell :: "char \<Rightarrow> char" where
  "clear_cell ch = (if ch \<noteq> CHR ''#'' \<and> ch \<noteq> CHR ''+'' then CHR ''.'' else ch)"

text \<open>The loop \<^verbatim>\<open>for i, player in enumerate(players)\<close> of refreshPlayerPositions.\<close>

fun place_players :: "nat list \<Rightarrow> server \<Rightarrow> outcome" where
  "place_players [] st = Ok st"
| "place_players (i # rest) st =
     (let player = players st ! i
      in if active player \<and> hp player > 0 then
           (case grid_set (grid st) (x player) (y player) (marker i) of
              None \<Rightarrow> Raised IndexError st
            | Some g \<Rightarrow> place_players rest (st\<lparr>grid := g\<rparr>))
         else place_players rest st)"

text \<open>
  The clearing loop visits every cell of the 5 by 5 grid: initGameState builds the grid
  with that shape and no statement of the server changes it.
\<close>

definition refreshPlayerPositions :: "server \<Rightarrow> outcome" where
  "refreshPlayerPositions st =
     place_players [0..<length (players st)] (st\<lparr>grid := map (map clear_cell) (grid st)\<rparr>)"

definition roster_line :: "nat \<Rightarrow> player \<Rightarrow> string" where
  "roster_line i player =
     ''  Player '' @ str_int (int i) @ '': HP='' @ str_int (hp player) @ '' Pos = (''
       @ str_int (x player) @ '','' @ str_int (y player) @ '')'' @ [nl]"

definition buildStateString :: "server \<Rightarrow> string" where
  "buildStateString st =
     ''STATE'' @ [nl]
     @ concat (map (\<lambda>row. row @ [nl]) (grid st))
     @ ''Players:'' @ [nl]
     @ concat (map (\<lambda>i. if active (players st ! i) then roster_line i (players st ! i) else [])
                 [0..<length (players st)])"

text \<open>The loop \<^verbatim>\<open>for sock in g_clientSockets\<close>, reading the list as it is at each position.\<close>

fun broadcast_loop :: "(sock \<Rightarrow> bool) \<Rightarrow> string \<Rightarrow> nat list \<Rightarrow> server \<Rightarrow> server" where
  "broadcast_loop broken stateStr [] st = st"
| "broadcast_loop broken stateStr (k # ks) st =
     (case g_clientSockets st ! k of
        None \<Rightarrow> broadcast_loop broken stateStr ks st
      | Some s \<Rightarrow>
          if can_send broken st s then broadcast_loop broken stateStr ks (deliver st s stateStr)
          else broadcast_loop broken stateStr ks (drop_socket st s))"

definition broadcastState :: "(sock \<Rightarrow> bool) \<Rightarrow> server \<Rightarrow> server" where
  "broadcastState broken st =
     broadcast_loop broken (buildStateString st) [0..<length (g_clientSockets st)] st"

text \<open>The tail \<^verbatim>\<open>refreshPlayerPositions(); broadcastState()\<close> of most commands.\<close>

definition refresh_and_broadcast :: "(sock \<Rightarrow> bool) \<Rightarrow> server \<Rightarrow> outcome" where
  "refresh_and_broadcast broken st =
     and_then (refreshPlayerPositions st) (\<lambda>st. Ok (broadcastState broken st))"

section \<open>handleCommand\<close>

subsection \<open>MOVE and JUMP\<close>

datatype direction = UP | DOWN | LEFT | RIGHT

text \<open>The destination: \<open>n\<close> is 1 in the MOVE branches and 2 in the JUMP branches.\<close>

definition destination :: "direction \<Rightarrow> int \<Rightarrow> player \<Rightarrow> int \<times> int" where
  "destination d n p =
     (case d of
        UP \<Rightarrow> (x p - n, y p)
      | DOWN \<Rightarrow> (x p + n, y p)
      | LEFT \<Rightarrow> (x p, y p - n)
      | RIGHT \<Rightarrow> (x p, y p + n))"

text \<open>The bounds test of each branch: UP and LEFT test both ends, DOWN and RIGHT the upper
  end only.\<close>

definition bounds_test :: "direction \<Rightarrow> int \<Rightarrow> int \<Rightarrow> bool" where
  "bounds_test d nx ny =
     (case d of
        UP \<Rightarrow> 0 \<le> nx \<and> nx < GRID_ROWS
      | DOWN \<Rightarrow> nx < GRID_ROWS
      | LEFT \<Rightarrow> 0 \<le> ny \<and> ny < GRID_COLS
      | RIGHT \<Rightarrow> ny < GRID_COLS)"

text \<open>UP and DOWN assign \<^verbatim>\<open>players[playerIndex]['x']\<close>, LEFT and RIGHT assign \<^verbatim>\<open>['y']\<close>.\<close>

definition set_coordinate :: "direction \<Rightarrow> int \<Rightarrow> int \<Rightarrow> player \<Rightarrow> player" where
  "set_coordinate d nx ny p =
     (case d of
        UP \<Rightarrow> p\<lparr>x := nx\<rparr>
      | DOWN \<Rightarrow> p\<lparr>x := nx\<rparr>
      | LEFT \<Rightarrow> p\<lparr>y := ny\<rparr>
      | RIGHT \<Rightarrow> p\<lparr>y := ny\<rparr>)"

text \<open>The body of one direction branch, up to the call of refreshPlayerPositions.\<close>

definition try_step :: "nat \<Rightarrow> direction \<Rightarrow> int \<Rightarrow> server \<Rightarrow> outcome" where
  "try_step playerIndex d n st =
     (let p = players st ! playerIndex;
          ogx = x p;
          ogy = y p;
          (nx, ny) = destination d n p
      in if \<not> bounds_test d nx ny then Ok st
         else
           (case grid_get (grid st) nx ny of
              None \<Rightarrow> Raised IndexError st
            | Some ch \<Rightarrow>
                if ch = CHR ''.'' \<or> ch = CHR ''+'' then
                  (case grid_set (grid st) ogx ogy (CHR ''.'') of
                     None \<Rightarrow> Raised IndexError st
                   | Some g1 \<Rightarrow>
                       (let st1 = st\<lparr>grid := g1,
                                     players := (players st)[playerIndex := set_coordinate d nx ny p]\<rparr>
                        in case grid_get (grid st1) nx ny of
                             None \<Rightarrow> Raised IndexError st1
                           | Some ch1 \<Rightarrow>
                               (let p1 = players st1 ! playerIndex;
                                    st2 = (if ch1 = CHR ''+''
                                           then st1\<lparr>players := (players st1)[playerIndex := p1\<lparr>hp := hp p1 + 5\<rparr>]\<rparr>
                                           else st1)
                                in case grid_set (grid st2) nx ny (marker playerIndex) of
                                     None \<Rightarrow> Raised IndexError st2
                                   | Some g2 \<Rightarrow> Ok (st2\<lparr>grid := g2\<rparr>))))
                else Ok st))"

definition move_command :: "(sock \<Rightarrow> bool) \<Rightarrow> nat \<Rightarrow> direction \<Rightarrow> int \<Rightarrow> server \<Rightarrow> outcome" where
  "move_command broken playerIndex d n st =
     and_then (try_step playerIndex d n st) (refresh_and_broadcast broken)"

subsection \<open>The reply to an unrecognised command\<close>

text \<open>\<^verbatim>\<open>g_clientSockets[playerIndex].send('Invalid command')\<close>: not inside any \<^verbatim>\<open>try\<close>.\<close>

definition send_invalid :: "(sock \<Rightarrow> bool) \<Rightarrow> nat \<Rightarrow> server \<Rightarrow> outcome" where
  "send_invalid broken playerIndex st =
     (case g_clientSockets st ! playerIndex of
        None \<Rightarrow> Raised AttributeError st
      | Some s \<Rightarrow>
          if can_send broken st s then Ok (deliver st s ''Invalid command'')
          else Raised SocketError st)"

subsection \<open>ATTACK\<close>

text \<open>The \<^verbatim>\<open>if/elif\<close> chain of the four neighbour tests: at most one of them fires.\<close>

definition adjacent :: "int \<Rightarrow> int \<Rightarrow> player \<Rightarrow> bool" where
  "adjacent ogx ogy p =
     (x p = ogx - 1 \<and> y p = ogy \<or> x p = ogx + 1 \<and> y p = ogy
      \<or> x p = ogx \<and> y p = ogy - 1 \<or> x p = ogx \<and> y p = ogy + 1)"

definition death_notice :: "nat \<Rightarrow> string" where
  "death_notice playerIndex = ''You were killed by Player '' @ [marker playerIndex]"

text \<open>Lines 273 to 286: the notice inside \<^verbatim>\<open>try\<close>, then the release of the victim.\<close>

definition eliminate :: "(sock \<Rightarrow> bool) \<Rightarrow> nat \<Rightarrow> nat \<Rightarrow> server \<Rightarrow> outcome" where
  "eliminate broken playerIndex i st =
     (case g_clientSockets st ! i of
        None \<Rightarrow> Raised AttributeError st
      | Some s \<Rightarrow>
          (let st = (if can_send broken st s then deliver st s (death_notice playerIndex) else st);
               st = st\<lparr>players := (players st)[i := (players st ! i)\<lparr>active := False\<rparr>]\<rparr>;
               st = st\<lparr>closed := s # closed st\<rparr>;
               st = st\<lparr>g_clientSockets := (g_clientSockets st)[i := None]\<rparr>
           in Ok (st\<lparr>clientCount := clientCount st - 1\<rparr>)))"

fun attack_loop :: "(sock \<Rightarrow> bool) \<Rightarrow> nat \<Rightarrow> int \<Rightarrow> int \<Rightarrow> nat list \<Rightarrow> server \<Rightarrow> outcome" where
  "attack_loop broken playerIndex ogx ogy [] st = Ok st"
| "attack_loop broken playerIndex ogx ogy (i # rest) st =
     (let player = players st ! i
      in if active player \<and> hp player > 0 then
           (let player = (if adjacent ogx ogy player then player\<lparr>hp := hp player - 10\<rparr> else player);
                st = st\<lparr>players := (players st)[i := player]\<rparr>
            in if hp player \<le> 0 then
                 and_then (eliminate broken playerIndex i st)
                   (attack_loop broken playerIndex ogx ogy rest)
               else attack_loop broken playerIndex ogx ogy rest st)
         else attack_loop broken playerIndex ogx ogy rest st)"

definition attack_command :: "(sock \<Rightarrow> bool) \<Rightarrow> nat \<Rightarrow> server \<Rightarrow> outcome" where
  "attack_command broken playerIndex st =
     (let ogx = x (players st ! playerIndex);
          ogy = y (players st ! playerIndex)
      in and_then (attack_loop broken playerIndex ogx ogy [0..<length (players st)] st)
           (refresh_and_broadcast broken))"

subsection \<open>QUIT\<close>

definition quit_message :: "nat \<Rightarrow> string" where
  "quit_message playerIndex = ''Player '' @ str_int (int playerIndex) @ '' has quit the game.''"

text \<open>The \<^verbatim>\<open>for\<close> loop sits inside the \<^verbatim>\<open>try\<close>: the first failed send ends it.\<close>

fun quit_notify :: "(sock \<Rightarrow> bool) \<Rightarrow> string \<Rightarrow> nat list \<Rightarrow> server \<Rightarrow> server" where
  "quit_notify broken message [] st = st"
| "quit_notify broken message (i # rest) st =
     (case g_clientSockets st ! i of
        None \<Rightarrow> quit_notify broken message rest st
      | Some s \<Rightarrow>
          if can_send broken st s then quit_notify broken message rest (deliver st s message)
          else st)"

definition quit_command :: "(sock \<Rightarrow> bool) \<Rightarrow> nat \<Rightarrow> server \<Rightarrow> outcome" where
  "quit_command broken playerIndex st =
     (let p = players st ! playerIndex;
          ogx = x p;
          ogy = y p;
          st = st\<lparr>players := (players st)[playerIndex := p\<lparr>active := False, x := - 1, y := - 1\<rparr>]\<rparr>
      in case grid_set (grid st) ogx ogy (CHR ''.'') of
           None \<Rightarrow> Raised IndexError st
         | Some g \<Rightarrow>
             (let st = st\<lparr>grid := g\<rparr>;
                  st = (case g_clientSockets st ! playerIndex of
                          None \<Rightarrow> st
                        | Some s \<Rightarrow>
                            (let st = quit_notify broken (quit_message playerIndex)
                                        [0..<length (g_clientSockets st)] st;
                                 st = st\<lparr>closed := s # closed st\<rparr>;
                                 st = st\<lparr>g_clientSockets := (g_clientSockets st)[playerIndex := None]\<rparr>
                             in st\<lparr>clientCount := clientCount st - 1\<rparr>))
              in refresh_and_broadcast broken st))"

subsection \<open>SAY\<close>

text \<open>The words after the first piece of \<^verbatim>\<open>cmd.split(' ')\<close> are appended one after the
  other, with nothing between them.\<close>

definition say_message :: "nat \<Rightarrow> string \<Rightarrow> string" where
  "say_message playerIndex cmd =
     ''SAY Player'' @ str_int (int playerIndex) @ '': '' @ concat (tl (split_space cmd))"

fun say_loop :: "(sock \<Rightarrow> bool) \<Rightarrow> nat \<Rightarrow> string \<Rightarrow> nat list \<Rightarrow> server \<Rightarrow> server" where
  "say_loop broken playerIndex msgStr [] st = st"
| "say_loop broken playerIndex msgStr (i # rest) st =
     (case g_clientSockets st ! i of
        None \<Rightarrow> say_loop broken playerIndex msgStr rest st
      | Some s \<Rightarrow>
          if i \<noteq> playerIndex then
            (if can_send broken st s then say_loop broken playerIndex msgStr rest (deliver st s msgStr)
             else say_loop broken playerIndex msgStr rest (drop_socket st s))
          else say_loop broken playerIndex msgStr rest st)"

definition say_command :: "(sock \<Rightarrow> bool) \<Rightarrow> nat \<Rightarrow> string \<Rightarrow> server \<Rightarrow> outcome" where
  "say_command broken playerIndex cmd st =
     refresh_and_broadcast broken
       (say_loop broken playerIndex (say_message playerIndex cmd)
          [0..<length (g_clientSockets st)] st)"

subsection \<open>The dispatch\<close>

definition direction_branches ::
  "(sock \<Rightarrow> bool) \<Rightarrow> nat \<Rightarrow> string \<Rightarrow> int \<Rightarrow> server \<Rightarrow> outcome" where
  "direction_branches broken playerIndex cmd n st =
     (if contains ''UP'' cmd then move_command broken playerIndex UP n st
      else if contains ''DOWN'' cmd then move_command broken playerIndex DOWN n st
      else if contains ''LEFT'' cmd then move_command broken playerIndex LEFT n st
      else if contains ''RIGHT'' cmd then move_command broken playerIndex RIGHT n st
      else send_invalid broken playerIndex st)"

definition handleCommand :: "(sock \<Rightarrow> bool) \<Rightarrow> nat \<Rightarrow> string \<Rightarrow> server \<Rightarrow> outcome" where
  "handleCommand broken playerIndex cmd st =
     (if startswith cmd ''MOVE'' then direction_branches broken playerIndex cmd 1 st
      else if startswith cmd ''ATTACK'' then attack_command broken playerIndex st
      else if startswith cmd ''QUIT'' then quit_command broken playerIndex st
      else if startswith cmd ''JUMP'' then direction_branches broken playerIndex cmd 2 st
      else if startswith cmd ''SAY'' then say_command broken playerIndex cmd st
      else send_invalid broken playerIndex st)"

section \<open>clientHandler and the accept loop of main\<close>

text \<open>
  Lines 424 to 434: the start of a session. \<open>sock\<close> is what line 424 read from
  \<^verbatim>\<open>g_clientSockets[playerIndex]\<close> before the lock was taken; \<open>st\<close> is the state in which the
  locked block runs, which other threads may have changed since that read.
\<close>

definition clientHandler_start ::
  "(sock \<Rightarrow> bool) \<Rightarrow> nat \<Rightarrow> sock option \<Rightarrow> server \<Rightarrow> outcome" where
  "clientHandler_start broken playerIndex sock st =
     (let st = st\<lparr>players := (players st)[playerIndex :=
                   (players st ! playerIndex)\<lparr>x := int playerIndex, y := 0, hp := 100, active := True\<rparr>]\<rparr>
      in and_then (refreshPlayerPositions st)
           (\<lambda>st. case sock of
                    None \<Rightarrow> Raised AttributeError st
                  | Some s \<Rightarrow>
                      if can_send broken st s
                      then Ok (broadcastState broken (deliver st s (''READY'' @ [nl])))
                      else Raised SocketError st))"

text \<open>Lines 450 to 455: the cleanup after the command loop has ended.\<close>

definition clientHandler_cleanup :: "(sock \<Rightarrow> bool) \<Rightarrow> nat \<Rightarrow> server \<Rightarrow> outcome" where
  "clientHandler_cleanup broken playerIndex st =
     (let st = st\<lparr>players := (players st)[playerIndex := (players st ! playerIndex)\<lparr>active := False\<rparr>]\<rparr>;
          p = players st ! playerIndex
      in case grid_set (grid st) (x p) (y p) (CHR ''.'') of
           None \<Rightarrow> Raised IndexError st
         | Some g \<Rightarrow>
             refresh_and_broadcast broken
               (st\<lparr>grid := g, g_clientSockets := (g_clientSockets st)[playerIndex := None]\<rparr>))"

text \<open>
  What one call of \<^verbatim>\<open>sock.recv(BUFFER_SIZE).decode('utf-8')\<close> gives: the text the bytes
  decode to, bytes that are not UTF-8 (\<^verbatim>\<open>decode\<close> raises UnicodeDecodeError), the empty read of
  a closed stream, or \<^verbatim>\<open>socket.error\<close>. The command loop runs over the reads the peer
  provides; when they are used up the thread is blocked in \<^verbatim>\<open>recv\<close>.
\<close>

datatype recv = Data string | Undecodable | EndOfStream | RecvError

datatype thread = Blocked server | Exited server | Died exn server

fun after_loop :: "outcome \<Rightarrow> thread" where
  "after_loop (Ok st) = Exited st"
| "after_loop (Raised e st) = Died e st"

text \<open>
  \<^verbatim>\<open>recv\<close> on a socket object that has been closed raises; UnicodeDecodeError and an
  exception of handleCommand other than \<^verbatim>\<open>socket.error\<close> are not caught and end the thread
  without the cleanup.
\<close>

fun command_loop :: "(sock \<Rightarrow> bool) \<Rightarrow> nat \<Rightarrow> sock \<Rightarrow> recv list \<Rightarrow> server \<Rightarrow> thread" where
  "command_loop broken playerIndex sock [] st =
     (if sock \<in> set (closed st) then after_loop (clientHandler_cleanup broken playerIndex st)
      else Blocked st)"
| "command_loop broken playerIndex sock (r # rs) st =
     (if sock \<in> set (closed st) then after_loop (clientHandler_cleanup broken playerIndex st)
      else
        (case r of
           RecvError \<Rightarrow> after_loop (clientHandler_cleanup broken playerIndex st)
         | EndOfStream \<Rightarrow> after_loop (clientHandler_cleanup broken playerIndex st)
         | Undecodable \<Rightarrow> Died UnicodeDecodeError st
         | Data text \<Rightarrow>
             (let player_command = strip text
              in if player_command = [] then after_loop (clientHandler_cleanup broken playerIndex st)
                 else
                   (case handleCommand broken playerIndex player_command st of
                      Ok st \<Rightarrow> command_loop broken playerIndex sock rs st
                    | Raised e st \<Rightarrow>
                        if e = SocketError
                        then after_loop (clientHandler_cleanup broken playerIndex st)
                        else Died e st))))"

text \<open>
  One round of the accept loop, lines 488 to 504, for the new socket \<open>clientSock\<close>: the
  result is the slot given to the connection, if any.
\<close>

definition accept_client :: "(sock \<Rightarrow> bool) \<Rightarrow> sock \<Rightarrow> server \<Rightarrow> outcome \<times> nat option" where
  "accept_client broken clientSock st =
     (if clientCount st \<ge> int MAX_CLIENTS then
        (if can_send broken st clientSock
         then (Ok ((deliver st clientSock ''Server is full.'')\<lparr>closed := clientSock # closed st\<rparr>), None)
         else (Raised SocketError st, None))
      else
        (case index_of (take MAX_CLIENTS (g_clientSockets st)) None of
           None \<Rightarrow> (Raised TypeError st, None)
         | Some slot \<Rightarrow>
             (Ok (st\<lparr>g_clientSockets := (g_clientSockets st)[slot := Some clientSock],
                     clientCount := clientCount st + 1\<rparr>), Some slot)))"

section \<open>State invariants\<close>

text \<open>
  The predicates in which the properties are stated. A grid has the shape initGameState
  gives it; a player stands at a cell when refreshPlayerPositions would place it there;
  \<open>top_marker\<close> is the character a cell shows after the placing loop has run over the
  slots \<open>js\<close>; a game state is valid when the grid shows exactly the active players,
  each at its own coordinates, over the terrain.
\<close>

definition grid_shape :: "char list list \<Rightarrow> bool" where
  "grid_shape g = (length g = 5 \<and> (\<forall>r<5. length (g ! r) = 5))"

definition in_grid :: "player \<Rightarrow> bool" where
  "in_grid p = (0 \<le> x p \<and> x p < GRID_ROWS \<and> 0 \<le> y p \<and> y p < GRID_COLS)"

definition stands_at :: "player \<Rightarrow> nat \<Rightarrow> nat \<Rightarrow> bool" where
  "stands_at p r c = (active p \<and> hp p > 0 \<and> x p = int r \<and> y p = int c)"

fun top_marker :: "player list \<Rightarrow> nat list \<Rightarrow> nat \<Rightarrow> nat \<Rightarrow> char \<Rightarrow> char" where
  "top_marker ps [] r c ch = ch"
| "top_marker ps (i # rest) r c ch =
     top_marker ps rest r c (if stands_at (ps ! i) r c then marker i else ch)"

definition valid_game :: "server \<Rightarrow> bool" where
  "valid_game st =
     (grid_shape (grid st) \<and> length (players st) = MAX_CLIENTS \<and>
      (\<forall>i<MAX_CLIENTS. active (players st ! i) \<longrightarrow>
         0 < hp (players st ! i) \<and> in_grid (players st ! i) \<and>
         grid st ! nat (x (players st ! i)) ! nat (y (players st ! i)) = marker i) \<and>
      (\<forall>r<5. \<forall>c<5. grid st ! r ! c \<in> {CHR ''.'', CHR ''#'', CHR ''+''} \<or>
         (\<exists>i<MAX_CLIENTS. active (players st ! i) \<and> x (players st ! i) = int r \<and> y (players st ! i) = int c)))"

subsection \<open>The state after a step\<close>

definition moved :: "server \<Rightarrow> nat \<Rightarrow> int \<Rightarrow> int \<Rightarrow> server" where
  "moved st i nx ny =
     (let p = players st ! i
      in st\<lparr>grid := grid_put (grid_put (grid st) (nat (x p)) (nat (y p)) (CHR ''.'')) (nat nx) (nat ny) (marker i),
            players := (players st)[i := p\<lparr>x := nx, y := ny,
               hp := hp p + (if grid st ! nat nx ! nat ny = CHR ''+'' then 5 else 0)\<rparr>]\<rparr>)"

definition enterable :: "server \<Rightarrow> int \<Rightarrow> int \<Rightarrow> bool" where
  "enterable st nx ny =
     (0 \<le> nx \<and> nx < GRID_ROWS \<and> 0 \<le> ny \<and> ny < GRID_COLS \<and>
      (grid st ! nat nx ! nat ny = CHR ''.'' \<or> grid st ! nat nx ! nat ny = CHR ''+''))"

subsection \<open>Words and legality, as the properties state them\<close>

definition direction_word :: "direction \<Rightarrow> string" where
  "direction_word d = (case d of UP \<Rightarrow> ''UP'' | DOWN \<Rightarrow> ''DOWN'' | LEFT \<Rightarrow> ''LEFT'' | RIGHT \<Rightarrow> ''RIGHT'')"

definition unobstructed :: "server \<Rightarrow> nat \<Rightarrow> int \<Rightarrow> int \<Rightarrow> bool" where
  "unobstructed st i nx ny =
     (0 \<le> nx \<and> nx < GRID_ROWS \<and> 0 \<le> ny \<and> ny < GRID_COLS \<and>
      grid st ! nat nx ! nat ny \<noteq> CHR ''#'' \<and>
      \<not> (\<exists>j<MAX_CLIENTS. j \<noteq> i \<and> active (players st ! j) \<and>
            x (players st ! j) = nx \<and> y (players st ! j) = ny))"

subsection \<open>Connections and an example state\<close>

text \<open>
  A connection as \<^verbatim>\<open>main\<close> handles it when no other thread runs in between: the accept
  round and, when a slot was given, the start of the session's thread, which reads its socket
  from the registry and then runs its locked block.
\<close>

definition connect :: "(sock \<Rightarrow> bool) \<Rightarrow> sock \<Rightarrow> server \<Rightarrow> outcome" where
  "connect broken clientSock st =
     (case accept_client broken clientSock st of
        (Ok st', Some slot) \<Rightarrow> clientHandler_start broken slot (g_clientSockets st' ! slot) st'
      | (r, _) \<Rightarrow> r)"

text \<open>The network on which no send fails, and the server after two clients have joined.\<close>

definition healthy :: "sock \<Rightarrow> bool" where
  "healthy s = False"

definition two_players :: server where
  "two_players = state_of (connect healthy 11 (state_of (connect healthy 10 initServer)))"

subsection \<open>Runs of commands\<close>

text \<open>
  Commands handled one after the other, each under the lock, each with the network as it
  is at that moment: a triple is the network, the issuing slot and the command text.
\<close>

fun run_commands :: "((sock \<Rightarrow> bool) \<times> nat \<times> string) list \<Rightarrow> server \<Rightarrow> outcome" where
  "run_commands [] st = Ok st"
| "run_commands ((broken, i, cmd) # rest) st =
     and_then (handleCommand broken i cmd st) (run_commands rest)"

definition move_commands :: "string list" where
  "move_commands =
     concat (map (\<lambda>kw. map (\<lambda>d. kw @ '' '' @ direction_word d) [UP, DOWN, LEFT, RIGHT])
                 [''MOVE'', ''JUMP''])"

text \<open>
  Every active player of \<open>st\<close> is inside the grid, not on a cell that is an obstacle in
  \<open>arena\<close>, and on a cell of its own.
\<close>

definition positions_safe :: "server \<Rightarrow> server \<Rightarrow> bool" where
  "positions_safe arena st =
     (\<forall>i<MAX_CLIENTS. active (players st ! i) \<longrightarrow>
        in_grid (players st ! i) \<and>
        grid arena ! nat (x (players st ! i)) ! nat (y (players st ! i)) \<noteq> CHR ''#'' \<and>
        (\<forall>j<MAX_CLIENTS. j \<noteq> i \<and> active (players st ! j) \<longrightarrow>
           (x (players st ! j), y (players st ! j)) \<noteq> (x (players st ! i), y (players st ! i))))"

definition terrain_kept :: "server \<Rightarrow> server \<Rightarrow> bool" where
  "terrain_kept st st' =
     (\<forall>r<5. \<forall>c<5. (grid st' ! r ! c = CHR ''#'') = (grid st ! r ! c = CHR ''#'') \<and>
                   (grid st' ! r ! c = CHR ''+'' \<longrightarrow> grid st ! r ! c = CHR ''+''))"

text \<open>The second player two cells to the right of its start cell, next to the pickup at (1,3).\<close>

definition near_pickup :: server where
  "near_pickup = state_of (run_commands [(healthy, 1, ''JUMP RIGHT'')] two_players)"

subsection \<open>The registry\<close>

text \<open>
  The registry has one entry per slot and no socket sits in two slots: main stores each
  accepted socket once.
\<close>

definition registry_ok :: "server \<Rightarrow> bool" where
  "registry_ok st =
     (length (g_clientSockets st) = MAX_CLIENTS \<and>
      (\<forall>i<MAX_CLIENTS. \<forall>j<MAX_CLIENTS. \<forall>s.
          g_clientSockets st ! i = Some s \<and> g_clientSockets st ! j = Some s \<longrightarrow> i = j))"

text \<open>The sockets in the slots \<open>ks\<close>, in that order, on which a send succeeds.\<close>

fun recipients :: "(sock \<Rightarrow> bool) \<Rightarrow> server \<Rightarrow> nat list \<Rightarrow> sock list" where
  "recipients broken st [] = []"
| "recipients broken st (k # ks) =
     (case g_clientSockets st ! k of
        None \<Rightarrow> recipients broken st ks
      | Some s \<Rightarrow> if can_send broken st s then s # recipients broken st ks
                  else recipients broken st ks)"

subsection \<open>A QUIT followed by a new connection\<close>

fun thread_state :: "thread \<Rightarrow> server" where
  "thread_state (Blocked st) = st"
| "thread_state (Exited st) = st"
| "thread_state (Died e st) = st"

text \<open>
  The first player of \<open>two_players\<close> sends QUIT: handleCommand frees slot 0 (lines 312 to
  316) and returns, and the lock is released. The thread of that player reaches its cleanup
  (lines 450 to 455) only after its next \<^verbatim>\<open>recv\<close> has failed on the closed socket, and
  takes the lock a second time for it. In between, main accepts a new client with socket 12,
  which gets the freed slot, and the thread of the new client reads socket 12 from the registry
  (line 424) and runs its start block.
\<close>

definition quit_handled :: server where
  "quit_handled = state_of (handleCommand healthy 0 ''QUIT'' two_players)"

definition slot_reused :: server where
  "slot_reused = state_of (fst (accept_client healthy 12 quit_handled))"

definition newcomer_started :: server where
  "newcomer_started = state_of (clientHandler_start healthy 0 (Some 12) slot_reused)"

text \<open>
  The other order: the cleanup of the old thread runs right after the accept, before the new
  thread has done anything.
\<close>

definition cleaned_first :: server where
  "cleaned_first = thread_state (command_loop healthy 0 10 [] slot_reused)"

subsection \<open>A failing network and the strict dispatcher\<close>

text \<open>The network on which every send to socket 11 fails.\<close>

definition broken_11 :: "sock \<Rightarrow> bool" where
  "broken_11 s = (s = 11)"

text \<open>
  The dispatch the specification proposes in place of the prefix and substring tests: the
  keyword is the first whitespace-delimited word of the command, compared as a whole and
  case-sensitively, and the direction is the second word. The bodies of the commands are
  those of handleCommand.
\<close>

definition first_word :: "string \<Rightarrow> string" where
  "first_word s = takeWhile (\<lambda>c. \<not> is_space c) (dropWhile is_space s)"

definition second_word :: "string \<Rightarrow> string" where
  "second_word s = first_word (dropWhile (\<lambda>c. \<not> is_space c) (dropWhile is_space s))"

definition direction_branches_strict ::
  "(sock \<Rightarrow> bool) \<Rightarrow> nat \<Rightarrow> string \<Rightarrow> int \<Rightarrow> server \<Rightarrow> outcome" where
  "direction_branches_strict broken playerIndex cmd n st =
     (if second_word cmd = ''UP'' then move_command broken playerIndex UP n st
      else if second_word cmd = ''DOWN'' then move_command broken playerIndex DOWN n st
      else if second_word cmd = ''LEFT'' then move_command broken playerIndex LEFT n st
      else if second_word cmd = ''RIGHT'' then move_command broken playerIndex RIGHT n st
      else send_invalid broken playerIndex st)"

definition handleCommand_strict :: "(sock \<Rightarrow> bool) \<Rightarrow> nat \<Rightarrow> string \<Rightarrow> server \<Rightarrow> outcome" where
  "handleCommand_strict broken playerIndex cmd st =
     (if first_word cmd = ''MOVE'' then direction_branches_strict broken playerIndex cmd 1 st
      else if first_word cmd = ''ATTACK'' then attack_command broken playerIndex st
      else if first_word cmd = ''QUIT'' then quit_command broken playerIndex st
      else if first_word cmd = ''JUMP'' then direction_branches_strict broken playerIndex cmd 2 st
      else if first_word cmd = ''SAY'' then say_command broken playerIndex cmd st
      else send_invalid broken playerIndex st)"

text \<open>The command lines of the wire protocol.\<close>

definition protocol_command :: "string \<Rightarrow> bool" where
  "protocol_command cmd =
     (cmd \<in> set move_commands \<or> cmd = ''ATTACK'' \<or> cmd = ''QUIT'' \<or> take 4 cmd = ''SAY '')"

text \<open>The slots other than \<open>i\<close>, in the order of the registry.\<close>

definition other_slots :: "nat \<Rightarrow> nat list" where
  "other_slots i = filter (\<lambda>k. k \<noteq> i) [0..<MAX_CLIENTS]"

subsection \<open>States without the log\<close>

text \<open>The game state, the registry and the closed sockets of a server state.\<close>

definition snapshot ::
  "server \<Rightarrow> char list list \<times> player list \<times> int \<times> sock option list \<times> sock list" where
  "snapshot st = (grid st, players st, clientCount st, g_clientSockets st, closed st)"

subsection \<open>An elimination after a failed broadcast\<close>

text \<open>
  Three clients have joined. Player 0 sends ATTACK nine times while every send to socket 11,
  the socket of player 1, fails: the first state broadcast frees the registry entry of
  player 1, and the nine attacks leave that player 10 hp. Then player 0 sends ATTACK once
  more.
\<close>

definition three_players :: server where
  "three_players = state_of (connect healthy 12 two_players)"

definition worn_down :: server where
  "worn_down = state_of (run_commands (replicate 9 (broken_11, 0, ''ATTACK'')) three_players)"

definition unburied :: server where
  "unburied = state_of (handleCommand healthy 0 ''ATTACK'' worn_down)"

subsection \<open>The effect of ATTACK on a roster entry\<close>

text \<open>
  A player is struck by an attack from (ogx, ogy) when it is active, alive and on one of the
  four neighbouring cells; it is slain when the 10 hp it loses leave it none. \<open>after_attack\<close>
  is what ATTACK makes of a roster entry, and the victims are the slots of the slain.
\<close>

definition struck :: "int \<Rightarrow> int \<Rightarrow> player \<Rightarrow> bool" where
  "struck ogx ogy q = (active q \<and> 0 < hp q \<and> adjacent ogx ogy q)"

definition slain :: "int \<Rightarrow> int \<Rightarrow> player \<Rightarrow> bool" where
  "slain ogx ogy q = (struck ogx ogy q \<and> hp q \<le> 10)"

definition after_attack :: "int \<Rightarrow> int \<Rightarrow> player \<Rightarrow> player" where
  "after_attack ogx ogy q =
     (if struck ogx ogy q then q\<lparr>hp := hp q - 10, active := (10 < hp q)\<rparr> else q)"

definition victims :: "server \<Rightarrow> nat \<Rightarrow> nat list" where
  "victims st p =
     filter (\<lambda>j. slain (x (players st ! p)) (y (players st ! p)) (players st ! j)) [0..<MAX_CLIENTS]"

section \<open>Properties\<close>

text \<open>
  C10: after initGameState the grid has its single obstacle at (2,2), pickups at (3,1), (0,4),
  (1,3) and (2,3) (the obstacle first written at (1,3) is overwritten), every other cell is
  empty, the four player slots hold x = y = -1, hp = 100, active = False, and clientCount = 0.
\<close>

theorem initGameState_layout:
  "initGameState =
     \<lparr>grid = [''....+'', ''...+.'', ''..#+.'', ''.+...'', ''.....''],
      players = [\<lparr>x = - 1, y = - 1, hp = 100, active = False\<rparr>,
                 \<lparr>x = - 1, y = - 1, hp = 100, active = False\<rparr>,
                 \<lparr>x = - 1, y = - 1, hp = 100, active = False\<rparr>,
                 \<lparr>x = - 1, y = - 1, hp = 100, active = False\<rparr>],
      clientCount = 0\<rparr>"
  by (simp add: initGameState_def grid_put_def MAX_CLIENTS_def GRID_ROWS_def GRID_COLS_def
      Let_def numeral_eq_Suc)

subsection \<open>Grid and refresh lemmas\<close>

lemma marker_simps:
  "marker 0 = CHR ''A''" "marker 1 = CHR ''B''" "marker 2 = CHR ''C''" "marker 3 = CHR ''D''"
  "marker (Suc 0) = CHR ''B''"
  by (code_simp)+

lemma lt4_cases: "i < (4::nat) \<Longrightarrow> i = 0 \<or> i = 1 \<or> i = 2 \<or> i = 3"
  by arith

lemma marker_not_terrain:
  assumes "i < 4"
  shows "marker i \<noteq> CHR ''.''" "marker i \<noteq> CHR ''#''" "marker i \<noteq> CHR ''+''"
  using lt4_cases[OF assms] by (auto simp: marker_simps)

lemma marker_inj: "i < 4 \<Longrightarrow> j < 4 \<Longrightarrow> marker i = marker j \<Longrightarrow> i = j"
  using lt4_cases[of i] lt4_cases[of j] by (auto simp: marker_simps)

lemma py_index_in_range: "0 \<le> i \<Longrightarrow> i < int n \<Longrightarrow> py_index n i = Some (nat i)"
  by (simp add: py_index_def)

lemma py_index_nat: "r < n \<Longrightarrow> py_index n (int r) = Some r"
  by (simp add: py_index_def)

lemma grid_get_in: "grid_shape g \<Longrightarrow> r < 5 \<Longrightarrow> c < 5 \<Longrightarrow> grid_get g (int r) (int c) = Some (g ! r ! c)"
  by (simp add: grid_get_def grid_shape_def py_index_nat)

lemma grid_set_in: "grid_shape g \<Longrightarrow> r < 5 \<Longrightarrow> c < 5 \<Longrightarrow> grid_set g (int r) (int c) v = Some (grid_put g r c v)"
  by (simp add: grid_set_def grid_shape_def py_index_nat)

lemma grid_put_shape: "grid_shape g \<Longrightarrow> grid_shape (grid_put g r c v)"
  by (cases "r < 5") (auto simp: grid_shape_def grid_put_def nth_list_update)

lemma grid_put_nth:
  "grid_shape g \<Longrightarrow> r < 5 \<Longrightarrow> c < 5 \<Longrightarrow> r' < 5 \<Longrightarrow> c' < 5 \<Longrightarrow>
   grid_put g r c v ! r' ! c' = (if r' = r \<and> c' = c then v else g ! r' ! c')"
  by (auto simp: grid_shape_def grid_put_def nth_list_update)

lemma grid_ext:
  assumes "grid_shape g" "grid_shape h" "\<And>r c. r < 5 \<Longrightarrow> c < 5 \<Longrightarrow> g ! r ! c = h ! r ! c"
  shows "g = h"
proof (rule nth_equalityI)
  show "length g = length h" using assms by (simp add: grid_shape_def)
next
  fix r assume "r < length g"
  then have r: "r < 5" using assms by (simp add: grid_shape_def)
  show "g ! r = h ! r"
  proof (rule nth_equalityI)
    show "length (g ! r) = length (h ! r)" using assms r by (simp add: grid_shape_def)
  next
    fix c assume "c < length (g ! r)"
    then have "c < 5" using assms r by (simp add: grid_shape_def)
    then show "g ! r ! c = h ! r ! c" using assms r by simp
  qed
qed

lemma in_grid_nat: "in_grid p \<Longrightarrow> \<exists>r c. r < 5 \<and> c < 5 \<and> x p = int r \<and> y p = int c"
  apply (rule exI[of _ "nat (x p)"], rule exI[of _ "nat (y p)"])
  by (auto simp: in_grid_def GRID_ROWS_def GRID_COLS_def)

lemma place_players_ok:
  assumes "grid_shape (grid st)"
    and "\<forall>i\<in>set js. active (players st ! i) \<and> hp (players st ! i) > 0 \<longrightarrow> in_grid (players st ! i)"
  shows "\<exists>g. place_players js st = Ok (st\<lparr>grid := g\<rparr>) \<and> grid_shape g \<and>
             (\<forall>r<5. \<forall>c<5. g ! r ! c = top_marker (players st) js r c (grid st ! r ! c))"
  using assms
proof (induction js arbitrary: st)
  case Nil
  show ?case by (rule exI[of _ "grid st"]) (use Nil in simp)
next
  case (Cons i js)
  let ?p = "players st ! i"
  show ?case
  proof (cases "active ?p \<and> hp ?p > 0")
    case False
    then have np: "\<And>r c. \<not> stands_at ?p r c" by (auto simp: stands_at_def)
    from Cons.IH[of st] Cons.prems obtain g where
      "place_players js st = Ok (st\<lparr>grid := g\<rparr>)" "grid_shape g"
      "\<forall>r<5. \<forall>c<5. g ! r ! c = top_marker (players st) js r c (grid st ! r ! c)" by auto
    with False np show ?thesis by (auto simp: Let_def)
  next
    case True
    with Cons.prems have "in_grid ?p" by simp
    then obtain r0 c0 where rc: "r0 < 5" "c0 < 5" "x ?p = int r0" "y ?p = int c0"
      using in_grid_nat by blast
    let ?g1 = "grid_put (grid st) r0 c0 (marker i)"
    let ?st1 = "st\<lparr>grid := ?g1\<rparr>"
    have gs: "grid_set (grid st) (x ?p) (y ?p) (marker i) = Some ?g1"
      using rc Cons.prems(1) by (simp add: grid_set_in)
    have sh1: "grid_shape (grid ?st1)" using Cons.prems(1) by (simp add: grid_put_shape)
    from Cons.IH[of ?st1] sh1 Cons.prems(2) obtain g where g:
      "place_players js ?st1 = Ok (?st1\<lparr>grid := g\<rparr>)" "grid_shape g"
      "\<forall>r<5. \<forall>c<5. g ! r ! c = top_marker (players ?st1) js r c (grid ?st1 ! r ! c)" by auto
    have st: "\<And>r c. stands_at ?p r c \<longleftrightarrow> r = r0 \<and> c = c0"
      using True rc by (auto simp: stands_at_def)
    have "place_players (i # js) st = Ok (st\<lparr>grid := g\<rparr>)"
      using True gs g(1) by (simp add: Let_def)
    moreover have "\<forall>r<5. \<forall>c<5. g ! r ! c = top_marker (players st) (i # js) r c (grid st ! r ! c)"
      using g(3) rc Cons.prems(1) by (auto simp: st grid_put_nth)
    ultimately show ?thesis using g(2) by blast
  qed
qed

lemma top_marker_none:
  "\<forall>i\<in>set js. \<not> stands_at (ps ! i) r c \<Longrightarrow> top_marker ps js r c ch = ch"
  by (induction js arbitrary: ch) auto

lemma top_marker_some:
  "\<exists>i\<in>set js. stands_at (ps ! i) r c \<Longrightarrow>
   \<exists>i\<in>set js. stands_at (ps ! i) r c \<and> top_marker ps js r c ch = marker i"
proof (induction js arbitrary: ch)
  case Nil
  then show ?case by simp
next
  case (Cons j js)
  show ?case
  proof (cases "\<exists>i\<in>set js. stands_at (ps ! i) r c")
    case True
    from Cons.IH[OF True] show ?thesis by auto
  next
    case False
    with Cons.prems have "stands_at (ps ! j) r c" by auto
    moreover from False have "\<And>ch. top_marker ps js r c ch = ch"
      by (simp add: top_marker_none)
    ultimately show ?thesis by auto
  qed
qed

lemma valid_cell:
  assumes "valid_game st" "r < 5" "c < 5"
  shows "top_marker (players st) [0..<length (players st)] r c (clear_cell (grid st ! r ! c)) = grid st ! r ! c"
proof (cases "\<exists>i<MAX_CLIENTS. stands_at (players st ! i) r c")
  case True
  have len: "length (players st) = MAX_CLIENTS" using assms by (simp add: valid_game_def)
  from True have "\<exists>i\<in>set [0..<length (players st)]. stands_at (players st ! i) r c"
    by (auto simp: len)
  from top_marker_some[OF this, of "clear_cell (grid st ! r ! c)"] obtain i where i: "i < MAX_CLIENTS" "stands_at (players st ! i) r c"
    "top_marker (players st) [0..<length (players st)] r c (clear_cell (grid st ! r ! c)) = marker i"
    by (auto simp: len)
  from i(1,2) assms(1) have "grid st ! r ! c = marker i"
    by (auto simp: valid_game_def stands_at_def)
  with i(3) show ?thesis by simp
next
  case False
  have len: "length (players st) = MAX_CLIENTS" using assms by (simp add: valid_game_def)
  from False have no: "\<forall>i\<in>set [0..<length (players st)]. \<not> stands_at (players st ! i) r c"
    by (auto simp: len)
  from False assms have "\<not> (\<exists>i<MAX_CLIENTS. active (players st ! i) \<and> x (players st ! i) = int r \<and> y (players st ! i) = int c)"
    by (auto simp: valid_game_def stands_at_def)
  with assms have "grid st ! r ! c \<in> {CHR ''.'', CHR ''#'', CHR ''+''}"
    unfolding valid_game_def by blast
  then have "clear_cell (grid st ! r ! c) = grid st ! r ! c" by (auto simp: clear_cell_def)
  with top_marker_none[OF no] show ?thesis by simp
qed

lemma map_clear_shape: "grid_shape g \<Longrightarrow> grid_shape (map (map clear_cell) g)"
  by (simp add: grid_shape_def)

lemma map_clear_nth: "grid_shape g \<Longrightarrow> r < 5 \<Longrightarrow> c < 5 \<Longrightarrow> map (map clear_cell) g ! r ! c = clear_cell (g ! r ! c)"
  by (simp add: grid_shape_def)

lemma refresh_valid:
  assumes "valid_game st"
  shows "refreshPlayerPositions st = Ok st"
proof -
  let ?st0 = "st\<lparr>grid := map (map clear_cell) (grid st)\<rparr>"
  have sh: "grid_shape (grid st)" and len: "length (players st) = MAX_CLIENTS"
    using assms by (simp_all add: valid_game_def)
  have "\<forall>i\<in>set [0..<length (players ?st0)]. active (players ?st0 ! i) \<and> hp (players ?st0 ! i) > 0
          \<longrightarrow> in_grid (players ?st0 ! i)"
    using assms by (auto simp: valid_game_def)
  moreover have "grid_shape (grid ?st0)" using sh by (simp add: map_clear_shape)
  ultimately obtain g where g: "place_players [0..<length (players ?st0)] ?st0 = Ok (?st0\<lparr>grid := g\<rparr>)"
    "grid_shape g"
    "\<forall>r<5. \<forall>c<5. g ! r ! c = top_marker (players ?st0) [0..<length (players ?st0)] r c (grid ?st0 ! r ! c)"
    using place_players_ok[of ?st0 "[0..<length (players ?st0)]"] by blast
  have "g = grid st"
  proof (rule grid_ext[OF g(2) sh])
    fix r c :: nat assume rc: "r < 5" "c < 5"
    with g(3) have "g ! r ! c = top_marker (players st) [0..<length (players st)] r c (clear_cell (grid st ! r ! c))"
      using sh by (simp add: map_clear_nth)
    with valid_cell[OF assms rc] show "g ! r ! c = grid st ! r ! c" by simp
  qed
  with g(1) show ?thesis by (simp add: refreshPlayerPositions_def)
qed

subsection \<open>MOVE and JUMP on valid states\<close>

lemma int_lt5: "0 \<le> a \<Longrightarrow> a < (5::int) \<Longrightarrow> \<exists>r<5. a = int r"
  by (rule exI[of _ "nat a"]) simp

lemma destination_cases:
  assumes "in_grid p" "n = 1 \<or> n = 2" "destination d n p = (nx, ny)"
  shows "(nx, ny) \<noteq> (x p, y p)"
    and "bounds_test d nx ny \<longleftrightarrow> 0 \<le> nx \<and> nx < GRID_ROWS \<and> 0 \<le> ny \<and> ny < GRID_COLS"
    and "set_coordinate d nx ny p = p\<lparr>x := nx, y := ny\<rparr>"
  using assms
  by (cases d; auto simp: destination_def bounds_test_def set_coordinate_def in_grid_def
        GRID_ROWS_def GRID_COLS_def)+

lemma try_step_valid:
  assumes v: "valid_game st" and i: "i < MAX_CLIENTS" and a: "active (players st ! i)"
    and n: "n = 1 \<or> n = 2" and dest: "destination d n (players st ! i) = (nx, ny)"
  shows "try_step i d n st = Ok (if enterable st nx ny then moved st i nx ny else st)"
proof -
  let ?p = "players st ! i"
  have sh: "grid_shape (grid st)" and len: "length (players st) = MAX_CLIENTS"
    using v by (simp_all add: valid_game_def)
  have ig: "in_grid ?p" using v i a by (simp add: valid_game_def)
  then obtain r0 c0 where rc0: "r0 < 5" "c0 < 5" "x ?p = int r0" "y ?p = int c0"
    using in_grid_nat by blast
  note dc = destination_cases[OF ig n dest]
  show ?thesis
  proof (cases "0 \<le> nx \<and> nx < GRID_ROWS \<and> 0 \<le> ny \<and> ny < GRID_COLS")
    case False
    then have "\<not> bounds_test d nx ny" using dc(2) by simp
    moreover have "\<not> enterable st nx ny" using False by (auto simp: enterable_def)
    ultimately show ?thesis using dest by (simp add: try_step_def Let_def)
  next
    case True
    then obtain r1 c1 where rc1: "r1 < 5" "c1 < 5" "nx = int r1" "ny = int c1"
      using int_lt5[of nx] int_lt5[of ny] by (auto simp: GRID_ROWS_def GRID_COLS_def)
    have bt: "bounds_test d nx ny" using True dc(2) by simp
    have ne: "\<not> (r1 = r0 \<and> c1 = c0)" using dc(1) rc0 rc1 by auto
    have gg: "grid_get (grid st) nx ny = Some (grid st ! r1 ! c1)"
      using sh rc1 by (simp add: grid_get_in)
    show ?thesis
    proof (cases "grid st ! r1 ! c1 = CHR ''.'' \<or> grid st ! r1 ! c1 = CHR ''+''")
      case False
      then have "\<not> enterable st nx ny" using rc1 by (simp add: enterable_def)
      with False bt gg dest show ?thesis by (simp add: try_step_def Let_def)
    next
      case ok: True
      then have en: "enterable st nx ny" using rc1 True by (simp add: enterable_def)
      let ?g1 = "grid_put (grid st) r0 c0 (CHR ''.'')"
      have gs1: "grid_set (grid st) (x ?p) (y ?p) (CHR ''.'') = Some ?g1"
        using sh rc0 by (simp add: grid_set_in)
      have sh1: "grid_shape ?g1" using sh by (rule grid_put_shape)
      have gg1: "grid_get ?g1 nx ny = Some (grid st ! r1 ! c1)"
        using sh sh1 rc0 rc1 ne by (auto simp: grid_get_in grid_put_nth)
      have gs2: "\<And>v. grid_set ?g1 nx ny v = Some (grid_put ?g1 r1 c1 v)"
        using sh1 rc1 by (simp add: grid_set_in)
      have il: "i < length (players st)" using i len by simp
      show ?thesis
        using en bt gg ok gs1 gg1 gs2 dest il rc0 rc1 dc(3)
        by (auto simp: try_step_def Let_def moved_def)
    qed
  qed
qed

lemma moved_valid:
  assumes v: "valid_game st" and i: "i < MAX_CLIENTS" and a: "active (players st ! i)"
    and en: "enterable st nx ny" and ne: "(nx, ny) \<noteq> (x (players st ! i), y (players st ! i))"
  shows "valid_game (moved st i nx ny)"
proof -
  let ?p = "players st ! i"
  have sh: "grid_shape (grid st)" and len: "length (players st) = MAX_CLIENTS"
    using v by (simp_all add: valid_game_def)
  have ig: "in_grid ?p" and hp: "0 < hp ?p" and own: "grid st ! nat (x ?p) ! nat (y ?p) = marker i"
    using v i a by (simp_all add: valid_game_def)
  obtain r0 c0 where rc0: "r0 < 5" "c0 < 5" "x ?p = int r0" "y ?p = int c0"
    using in_grid_nat[OF ig] by blast
  obtain r1 c1 where rc1: "r1 < 5" "c1 < 5" "nx = int r1" "ny = int c1"
    using en int_lt5[of nx] int_lt5[of ny] by (auto simp: enterable_def GRID_ROWS_def GRID_COLS_def)
  have d01: "\<not> (r1 = r0 \<and> c1 = c0)" using ne rc0 rc1 by auto
  have dest: "grid st ! r1 ! c1 = CHR ''.'' \<or> grid st ! r1 ! c1 = CHR ''+''"
    using en rc1 by (simp add: enterable_def)
  have src: "grid st ! r0 ! c0 = marker i" using own rc0 by simp
  let ?g = "grid_put (grid_put (grid st) r0 c0 (CHR ''.'')) r1 c1 (marker i)"
  let ?q = "?p\<lparr>x := nx, y := ny, hp := hp ?p + (if grid st ! nat nx ! nat ny = CHR ''+'' then 5 else 0)\<rparr>"
  have st': "moved st i nx ny = st\<lparr>grid := ?g, players := (players st)[i := ?q]\<rparr>"
    using rc0 rc1 by (simp add: moved_def Let_def)
  have sh': "grid_shape ?g" using sh by (simp add: grid_put_shape)
  have cellg: "\<And>r c. r < 5 \<Longrightarrow> c < 5 \<Longrightarrow>
      ?g ! r ! c = (if r = r1 \<and> c = c1 then marker i else if r = r0 \<and> c = c0 then CHR ''.'' else grid st ! r ! c)"
    using sh rc0 rc1 by (simp add: grid_put_nth grid_put_shape)
  have others: "\<And>j. j < MAX_CLIENTS \<Longrightarrow> j \<noteq> i \<Longrightarrow> active (players st ! j) \<Longrightarrow>
      \<exists>r c. r < 5 \<and> c < 5 \<and> x (players st ! j) = int r \<and> y (players st ! j) = int c \<and>
        grid st ! r ! c = marker j \<and> \<not> (r = r0 \<and> c = c0) \<and> \<not> (r = r1 \<and> c = c1)"
  proof -
    fix j assume j: "j < MAX_CLIENTS" "j \<noteq> i" "active (players st ! j)"
    then have igj: "in_grid (players st ! j)"
      and ownj: "grid st ! nat (x (players st ! j)) ! nat (y (players st ! j)) = marker j"
      using v by (simp_all add: valid_game_def)
    obtain r c where rc: "r < 5" "c < 5" "x (players st ! j) = int r" "y (players st ! j) = int c"
      using in_grid_nat[OF igj] by blast
    have m: "grid st ! r ! c = marker j" using ownj rc by simp
    have "\<not> (r = r0 \<and> c = c0)"
      using m src j i marker_inj[of i j] by (auto simp: MAX_CLIENTS_def)
    moreover have "\<not> (r = r1 \<and> c = c1)"
      using m dest j marker_not_terrain[of j] by (auto simp: MAX_CLIENTS_def)
    ultimately show "\<exists>r c. r < 5 \<and> c < 5 \<and> x (players st ! j) = int r \<and> y (players st ! j) = int c \<and>
        grid st ! r ! c = marker j \<and> \<not> (r = r0 \<and> c = c0) \<and> \<not> (r = r1 \<and> c = c1)"
      using rc m by blast
  qed
  have il: "i < length (players st)" using i len by simp
  have A: "\<forall>j<MAX_CLIENTS. active ((players st)[i := ?q] ! j) \<longrightarrow>
         0 < hp ((players st)[i := ?q] ! j) \<and> in_grid ((players st)[i := ?q] ! j) \<and>
         ?g ! nat (x ((players st)[i := ?q] ! j)) ! nat (y ((players st)[i := ?q] ! j)) = marker j"
  proof (intro allI impI)
    fix j assume j: "j < MAX_CLIENTS" and aj: "active ((players st)[i := ?q] ! j)"
    show "0 < hp ((players st)[i := ?q] ! j) \<and> in_grid ((players st)[i := ?q] ! j) \<and>
         ?g ! nat (x ((players st)[i := ?q] ! j)) ! nat (y ((players st)[i := ?q] ! j)) = marker j"
    proof (cases "j = i")
      case True
      then show ?thesis using il hp rc1 cellg[of r1 c1]
        by (simp add: in_grid_def GRID_ROWS_def GRID_COLS_def)
    next
      case False
      with aj il have ajo: "active (players st ! j)" by simp
      from others[OF j False ajo] obtain r c where rc: "r < 5" "c < 5"
        "x (players st ! j) = int r" "y (players st ! j) = int c" "grid st ! r ! c = marker j"
        "\<not> (r = r0 \<and> c = c0)" "\<not> (r = r1 \<and> c = c1)" by blast
      have "0 < hp (players st ! j)" "in_grid (players st ! j)"
        using v j ajo by (simp_all add: valid_game_def)
      then show ?thesis using False il rc cellg[of r c] by auto
    qed
  qed
  have B: "\<forall>r<5. \<forall>c<5. ?g ! r ! c \<in> {CHR ''.'', CHR ''#'', CHR ''+''} \<or>
         (\<exists>j<MAX_CLIENTS. active ((players st)[i := ?q] ! j) \<and> x ((players st)[i := ?q] ! j) = int r
             \<and> y ((players st)[i := ?q] ! j) = int c)"
  proof (intro allI impI)
    fix r c :: nat assume rc: "r < 5" "c < 5"
    show "?g ! r ! c \<in> {CHR ''.'', CHR ''#'', CHR ''+''} \<or>
         (\<exists>j<MAX_CLIENTS. active ((players st)[i := ?q] ! j) \<and> x ((players st)[i := ?q] ! j) = int r
             \<and> y ((players st)[i := ?q] ! j) = int c)"
    proof (cases "r = r1 \<and> c = c1")
      case True
      then have "active ((players st)[i := ?q] ! i) \<and> x ((players st)[i := ?q] ! i) = int r
             \<and> y ((players st)[i := ?q] ! i) = int c" using il a rc1 by simp
      then show ?thesis using i by blast
    next
      case nd: False
      show ?thesis
      proof (cases "r = r0 \<and> c = c0")
        case True
        have "?g ! r ! c = CHR ''.''" using True nd rc cellg[of r c] by auto
        then show ?thesis by simp
      next
        case False
        from v rc have "grid st ! r ! c \<in> {CHR ''.'', CHR ''#'', CHR ''+''} \<or>
          (\<exists>j<MAX_CLIENTS. active (players st ! j) \<and> x (players st ! j) = int r \<and> y (players st ! j) = int c)"
          unfolding valid_game_def by blast
        then show ?thesis
        proof
          assume t: "grid st ! r ! c \<in> {CHR ''.'', CHR ''#'', CHR ''+''}"
          have "?g ! r ! c = grid st ! r ! c" using nd False rc cellg[of r c] by auto
          with t show ?thesis by simp
        next
          assume "\<exists>j<MAX_CLIENTS. active (players st ! j) \<and> x (players st ! j) = int r \<and> y (players st ! j) = int c"
          then obtain j where j: "j < MAX_CLIENTS" "active (players st ! j)"
            "x (players st ! j) = int r" "y (players st ! j) = int c" by blast
          have "j \<noteq> i" using j False rc0 by auto
          then have "active ((players st)[i := ?q] ! j) \<and> x ((players st)[i := ?q] ! j) = int r
             \<and> y ((players st)[i := ?q] ! j) = int c" using j by simp
          then show ?thesis using j(1) by blast
        qed
      qed
    qed
  qed
  show ?thesis
    unfolding st' valid_game_def using sh' len A B by simp
qed

subsection \<open>Broadcast frame and the effect of a step\<close>

lemma broadcast_loop_frame:
  "\<exists>a b c. broadcast_loop broken m ks st = st\<lparr>g_clientSockets := a, closed := b, sent := c\<rparr>"
proof (induction ks arbitrary: st)
  case Nil
  show ?case
    by (rule exI[of _ "g_clientSockets st"], rule exI[of _ "closed st"], rule exI[of _ "sent st"]) simp
next
  case (Cons k ks)
  show ?case
  proof (cases "g_clientSockets st ! k")
    case None
    then show ?thesis using Cons.IH[of st] by simp
  next
    case (Some s)
    show ?thesis
    proof (cases "can_send broken st s")
      case True
      from Cons.IH[of "deliver st s m"] obtain a b c where
        "broadcast_loop broken m ks (deliver st s m) = (deliver st s m)\<lparr>g_clientSockets := a, closed := b, sent := c\<rparr>"
        by blast
      then show ?thesis using Some True by (auto simp: deliver_def)
    next
      case False
      from Cons.IH[of "drop_socket st s"] obtain a b c where
        "broadcast_loop broken m ks (drop_socket st s) = (drop_socket st s)\<lparr>g_clientSockets := a, closed := b, sent := c\<rparr>"
        by blast
      then show ?thesis using Some False by (auto simp: drop_socket_def Let_def split: option.splits)
    qed
  qed
qed

lemma broadcastState_frame:
  "\<exists>a b c. broadcastState broken st = st\<lparr>g_clientSockets := a, closed := b, sent := c\<rparr>"
  unfolding broadcastState_def by (rule broadcast_loop_frame)

lemma broadcastState_game:
  "grid (broadcastState broken st) = grid st"
  "players (broadcastState broken st) = players st"
  "clientCount (broadcastState broken st) = clientCount st"
  using broadcastState_frame[of broken st] by auto

lemma broadcastState_valid: "valid_game (broadcastState broken st) = valid_game st"
  by (simp add: valid_game_def broadcastState_game)

lemma refresh_and_broadcast_valid:
  "valid_game st \<Longrightarrow> refresh_and_broadcast broken st = Ok (broadcastState broken st)"
  by (simp add: refresh_and_broadcast_def refresh_valid)

lemma enterable_iff_unobstructed:
  assumes v: "valid_game st" and i: "i < MAX_CLIENTS" and a: "active (players st ! i)"
    and ne: "(nx, ny) \<noteq> (x (players st ! i), y (players st ! i))"
  shows "enterable st nx ny \<longleftrightarrow> unobstructed st i nx ny"
proof (cases "0 \<le> nx \<and> nx < GRID_ROWS \<and> 0 \<le> ny \<and> ny < GRID_COLS")
  case False
  then show ?thesis by (auto simp: enterable_def unobstructed_def)
next
  case True
  then obtain r c where rc: "r < 5" "c < 5" "nx = int r" "ny = int c"
    using int_lt5[of nx] int_lt5[of ny] by (auto simp: GRID_ROWS_def GRID_COLS_def)
  show ?thesis
  proof
    assume en: "enterable st nx ny"
    then have cell: "grid st ! r ! c = CHR ''.'' \<or> grid st ! r ! c = CHR ''+''"
      using rc by (simp add: enterable_def)
    have "\<not> (\<exists>j<MAX_CLIENTS. j \<noteq> i \<and> active (players st ! j) \<and>
            x (players st ! j) = nx \<and> y (players st ! j) = ny)"
    proof
      assume "\<exists>j<MAX_CLIENTS. j \<noteq> i \<and> active (players st ! j) \<and>
            x (players st ! j) = nx \<and> y (players st ! j) = ny"
      then obtain j where j: "j < MAX_CLIENTS" "active (players st ! j)"
        "x (players st ! j) = nx" "y (players st ! j) = ny" by blast
      with v have "grid st ! nat nx ! nat ny = marker j" by (auto simp: valid_game_def)
      with cell rc j(1) marker_not_terrain[of j] show False by (auto simp: MAX_CLIENTS_def)
    qed
    with True cell rc show "unobstructed st i nx ny" by (auto simp: unobstructed_def)
  next
    assume un: "unobstructed st i nx ny"
    from v rc have "grid st ! r ! c \<in> {CHR ''.'', CHR ''#'', CHR ''+''} \<or>
          (\<exists>j<MAX_CLIENTS. active (players st ! j) \<and> x (players st ! j) = int r \<and> y (players st ! j) = int c)"
      unfolding valid_game_def by blast
    then show "enterable st nx ny"
    proof
      assume "grid st ! r ! c \<in> {CHR ''.'', CHR ''#'', CHR ''+''}"
      with un rc True show ?thesis by (auto simp: unobstructed_def enterable_def)
    next
      assume "\<exists>j<MAX_CLIENTS. active (players st ! j) \<and> x (players st ! j) = int r \<and> y (players st ! j) = int c"
      then obtain j where j: "j < MAX_CLIENTS" "active (players st ! j)"
        "x (players st ! j) = nx" "y (players st ! j) = ny" using rc by auto
      have "j \<noteq> i" using j ne by auto
      with un j have False by (auto simp: unobstructed_def)
      then show ?thesis ..
    qed
  qed
qed

lemma move_command_valid:
  assumes v: "valid_game st" and i: "i < MAX_CLIENTS" and a: "active (players st ! i)"
    and n: "n = 1 \<or> n = 2" and dest: "destination d n (players st ! i) = (nx, ny)"
  shows "move_command broken i d n st =
           Ok (broadcastState broken (if unobstructed st i nx ny then moved st i nx ny else st))"
    and "valid_game (if unobstructed st i nx ny then moved st i nx ny else st)"
proof -
  have ig: "in_grid (players st ! i)" using v i a by (simp add: valid_game_def)
  have ne: "(nx, ny) \<noteq> (x (players st ! i), y (players st ! i))"
    using destination_cases(1)[OF ig n dest] .
  have eq: "enterable st nx ny \<longleftrightarrow> unobstructed st i nx ny"
    using enterable_iff_unobstructed[OF v i a ne] .
  show v': "valid_game (if unobstructed st i nx ny then moved st i nx ny else st)"
    using v moved_valid[OF v i a _ ne] eq by auto
  show "move_command broken i d n st =
           Ok (broadcastState broken (if unobstructed st i nx ny then moved st i nx ny else st))"
    using try_step_valid[OF v i a n dest] eq refresh_and_broadcast_valid[OF v']
    by (simp add: move_command_def)
qed

lemma handle_move_text:
  "handleCommand broken i (''MOVE '' @ direction_word d) st = move_command broken i d 1 st"
  "handleCommand broken i (''JUMP '' @ direction_word d) st = move_command broken i d 2 st"
  by (cases d; simp add: handleCommand_def direction_branches_def direction_word_def)+

subsection \<open>The state with two players\<close>

lemma two_players_fields:
  "grid two_players = [''A...+'', ''B..+.'', ''..#+.'', ''.+...'', ''.....'']"
  "players two_players =
     [\<lparr>x = 0, y = 0, hp = 100, active = True\<rparr>, \<lparr>x = 1, y = 0, hp = 100, active = True\<rparr>,
      \<lparr>x = - 1, y = - 1, hp = 100, active = False\<rparr>, \<lparr>x = - 1, y = - 1, hp = 100, active = False\<rparr>]"
  "clientCount two_players = 2"
  "g_clientSockets two_players = [Some 10, Some 11, None, None]"
  "closed two_players = []"
  by code_simp+

lemma two_players_valid: "valid_game two_players"
  unfolding valid_game_def
  by (simp add: two_players_fields grid_shape_def MAX_CLIENTS_def in_grid_def GRID_ROWS_def
      GRID_COLS_def marker_simps numeral_eq_Suc All_less_Suc Ex_less_Suc)

subsection \<open>Claims on runs of MOVE and JUMP\<close>

lemma move_commands_cases:
  assumes "cmd \<in> set move_commands"
  obtains d where "cmd = ''MOVE '' @ direction_word d" | d where "cmd = ''JUMP '' @ direction_word d"
  using assms by (auto simp: move_commands_def)

lemma moved_cell:
  assumes sh: "grid_shape (grid st)" and ig: "in_grid (players st ! i)"
    and b: "0 \<le> nx" "nx < GRID_ROWS" "0 \<le> ny" "ny < GRID_COLS" and rc: "r < 5" "c < 5"
  shows "grid (moved st i nx ny) ! r ! c =
           (if int r = nx \<and> int c = ny then marker i
            else if int r = x (players st ! i) \<and> int c = y (players st ! i) then CHR ''.''
            else grid st ! r ! c)"
proof -
  obtain r0 c0 where rc0: "r0 < 5" "c0 < 5" "x (players st ! i) = int r0" "y (players st ! i) = int c0"
    using in_grid_nat[OF ig] by blast
  obtain r1 c1 where rc1: "r1 < 5" "c1 < 5" "nx = int r1" "ny = int c1"
    using b int_lt5[of nx] int_lt5[of ny] by (auto simp: GRID_ROWS_def GRID_COLS_def)
  show ?thesis
    using sh rc rc0 rc1 by (simp add: moved_def Let_def grid_put_nth grid_put_shape)
qed

lemma moved_players:
  assumes "i < length (players st)"
  shows "players (moved st i nx ny) ! i = (players st ! i)\<lparr>x := nx, y := ny,
           hp := hp (players st ! i) + (if grid st ! nat nx ! nat ny = CHR ''+'' then 5 else 0)\<rparr>"
    and "j \<noteq> i \<Longrightarrow> players (moved st i nx ny) ! j = players st ! j"
    and "active (players (moved st i nx ny) ! k) = active (players st ! k)"
  using assms by (auto simp: moved_def Let_def nth_list_update)

lemma moved_terrain:
  assumes v: "valid_game st" and i: "i < MAX_CLIENTS" and a: "active (players st ! i)"
    and en: "enterable st nx ny"
  shows "terrain_kept st (moved st i nx ny)"
proof -
  have sh: "grid_shape (grid st)" using v by (simp add: valid_game_def)
  have ig: "in_grid (players st ! i)" and own: "grid st ! nat (x (players st ! i)) ! nat (y (players st ! i)) = marker i"
    using v i a by (simp_all add: valid_game_def)
  have b: "0 \<le> nx" "nx < GRID_ROWS" "0 \<le> ny" "ny < GRID_COLS"
    and cell: "grid st ! nat nx ! nat ny = CHR ''.'' \<or> grid st ! nat nx ! nat ny = CHR ''+''"
    using en by (simp_all add: enterable_def)
  have mk: "marker i \<noteq> CHR ''#''" "marker i \<noteq> CHR ''+''" "marker i \<noteq> CHR ''.''"
    using marker_not_terrain[of i] i by (simp_all add: MAX_CLIENTS_def)
  show ?thesis
    unfolding terrain_kept_def
  proof (intro allI impI)
    fix r c :: nat assume rc: "r < 5" "c < 5"
    note mc = moved_cell[OF sh ig b rc]
    show "(grid (moved st i nx ny) ! r ! c = CHR ''#'') = (grid st ! r ! c = CHR ''#'') \<and>
          (grid (moved st i nx ny) ! r ! c = CHR ''+'' \<longrightarrow> grid st ! r ! c = CHR ''+'')"
    proof (cases "int r = nx \<and> int c = ny")
      case True
      then have "nat nx = r" "nat ny = c" by auto
      with cell mc True mk show ?thesis by auto
    next
      case False
      show ?thesis
      proof (cases "int r = x (players st ! i) \<and> int c = y (players st ! i)")
        case True
        then have "nat (x (players st ! i)) = r" "nat (y (players st ! i)) = c" by auto
        with own mc True False mk show ?thesis by auto
      next
        case nf: False
        with mc False show ?thesis by auto
      qed
    qed
  qed
qed

lemma terrain_kept_refl: "terrain_kept st st"
  by (simp add: terrain_kept_def)

lemma terrain_kept_trans: "terrain_kept a b \<Longrightarrow> terrain_kept b c \<Longrightarrow> terrain_kept a c"
  by (simp add: terrain_kept_def)

lemma terrain_kept_broadcast: "terrain_kept st (broadcastState broken st') = terrain_kept st st'"
  by (simp add: terrain_kept_def broadcastState_game)

lemma move_step_invariant:
  assumes v: "valid_game st" and i: "i < MAX_CLIENTS" and a: "active (players st ! i)"
    and cmd: "cmd \<in> set move_commands"
  shows "\<exists>st'. handleCommand broken i cmd st = Ok st' \<and> valid_game st' \<and> terrain_kept st st' \<and>
           (\<forall>j. active (players st' ! j) = active (players st ! j))"
proof -
  have "\<exists>d n. handleCommand broken i cmd st = move_command broken i d n st \<and> (n = 1 \<or> n = 2)"
  proof (rule move_commands_cases[OF cmd])
    fix d assume "cmd = ''MOVE '' @ direction_word d"
    then have "handleCommand broken i cmd st = move_command broken i d 1 st"
      by (simp only: handle_move_text)
    then show ?thesis by blast
  next
    fix d assume "cmd = ''JUMP '' @ direction_word d"
    then have "handleCommand broken i cmd st = move_command broken i d 2 st"
      by (simp only: handle_move_text)
    then show ?thesis by blast
  qed
  then obtain d n where h: "handleCommand broken i cmd st = move_command broken i d n st" "n = 1 \<or> n = 2"
    by blast
  obtain nx ny where dest: "destination d n (players st ! i) = (nx, ny)" by fastforce
  let ?st1 = "if unobstructed st i nx ny then moved st i nx ny else st"
  have ig: "in_grid (players st ! i)" using v i a by (simp add: valid_game_def)
  have ne: "(nx, ny) \<noteq> (x (players st ! i), y (players st ! i))"
    using destination_cases(1)[OF ig h(2) dest] .
  have eq: "enterable st nx ny \<longleftrightarrow> unobstructed st i nx ny"
    using enterable_iff_unobstructed[OF v i a ne] .
  have len: "i < length (players st)" using v i by (simp add: valid_game_def)
  have 1: "handleCommand broken i cmd st = Ok (broadcastState broken ?st1)"
    using h(1) move_command_valid(1)[OF v i a h(2) dest] by simp
  have 2: "valid_game (broadcastState broken ?st1)"
    using move_command_valid(2)[OF v i a h(2) dest] by (simp add: broadcastState_valid)
  have 3: "terrain_kept st ?st1"
    using moved_terrain[OF v i a] eq terrain_kept_refl by auto
  have 4: "\<forall>j. active (players ?st1 ! j) = active (players st ! j)"
    using moved_players(3)[OF len] by simp
  show ?thesis
    using 1 2 3 4 by (auto simp: terrain_kept_broadcast broadcastState_game)
qed

lemma run_moves_invariant:
  assumes "valid_game st"
    and "\<forall>(broken, i, cmd)\<in>set cmds. i < MAX_CLIENTS \<and> active (players st ! i) \<and> cmd \<in> set move_commands"
  shows "\<exists>st'. run_commands cmds st = Ok st' \<and> valid_game st' \<and> terrain_kept st st' \<and>
           (\<forall>j. active (players st' ! j) = active (players st ! j))"
  using assms
proof (induction cmds arbitrary: st)
  case Nil
  then show ?case by (simp add: terrain_kept_refl)
next
  case (Cons t cmds)
  obtain broken i cmd where t: "t = (broken, i, cmd)" by (cases t) auto
  from Cons.prems t have i: "i < MAX_CLIENTS" "active (players st ! i)" "cmd \<in> set move_commands"
    by auto
  from move_step_invariant[OF Cons.prems(1) i, of broken] obtain st1 where st1:
    "handleCommand broken i cmd st = Ok st1" "valid_game st1" "terrain_kept st st1"
    "\<forall>j. active (players st1 ! j) = active (players st ! j)" by blast
  have "\<forall>(broken, i, cmd)\<in>set cmds. i < MAX_CLIENTS \<and> active (players st1 ! i) \<and> cmd \<in> set move_commands"
    using Cons.prems(2) st1(4) by auto
  from Cons.IH[OF st1(2) this] obtain st' where st':
    "run_commands cmds st1 = Ok st'" "valid_game st'" "terrain_kept st1 st'"
    "\<forall>j. active (players st' ! j) = active (players st1 ! j)" by blast
  show ?case
    using t st1 st' terrain_kept_trans[OF st1(3) st'(3)] by auto
qed

lemma valid_positions_safe:
  assumes v: "valid_game st'" and t: "terrain_kept st st'"
  shows "positions_safe st st'"
  unfolding positions_safe_def
proof (intro allI impI)
  fix i assume i: "i < MAX_CLIENTS" and a: "active (players st' ! i)"
  let ?p = "players st' ! i"
  have ig: "in_grid ?p" and own: "grid st' ! nat (x ?p) ! nat (y ?p) = marker i"
    using v i a by (simp_all add: valid_game_def)
  obtain r c where rc: "r < 5" "c < 5" "x ?p = int r" "y ?p = int c"
    using in_grid_nat[OF ig] by blast
  have "grid st' ! r ! c \<noteq> CHR ''#''"
    using own rc marker_not_terrain[of i] i by (auto simp: MAX_CLIENTS_def)
  with t rc have ob: "grid st ! nat (x ?p) ! nat (y ?p) \<noteq> CHR ''#''"
    by (auto simp: terrain_kept_def)
  have "\<forall>j<MAX_CLIENTS. j \<noteq> i \<and> active (players st' ! j) \<longrightarrow>
           (x (players st' ! j), y (players st' ! j)) \<noteq> (x ?p, y ?p)"
  proof (intro allI impI notI)
    fix j assume j: "j < MAX_CLIENTS" and h: "j \<noteq> i \<and> active (players st' ! j)"
      and e: "(x (players st' ! j), y (players st' ! j)) = (x ?p, y ?p)"
    from v j h have "grid st' ! nat (x (players st' ! j)) ! nat (y (players st' ! j)) = marker j"
      by (simp add: valid_game_def)
    with e own have "marker i = marker j" by simp
    with marker_inj[of i j] i j h show False by (auto simp: MAX_CLIENTS_def)
  qed
  with ig ob show "in_grid ?p \<and> grid st ! nat (x ?p) ! nat (y ?p) \<noteq> CHR ''#'' \<and>
        (\<forall>j<MAX_CLIENTS. j \<noteq> i \<and> active (players st' ! j) \<longrightarrow>
           (x (players st' ! j), y (players st' ! j)) \<noteq> (x ?p, y ?p))" by blast
qed

text \<open>
  C9: from a valid state, such as the state after the joins, every sequence of MOVE and JUMP
  commands by active players runs to completion, and after each of its prefixes every active
  player is inside the grid, off the obstacle cells and on a cell no other active player is on.
\<close>

theorem moves_keep_positions_safe:
  assumes "valid_game st"
    and "\<forall>(broken, i, cmd)\<in>set cmds. i < MAX_CLIENTS \<and> active (players st ! i) \<and> cmd \<in> set move_commands"
  shows "\<exists>st'. run_commands (take k cmds) st = Ok st' \<and> positions_safe st st'"
proof -
  have "\<forall>(broken, i, cmd)\<in>set (take k cmds). i < MAX_CLIENTS \<and> active (players st ! i) \<and> cmd \<in> set move_commands"
    using assms(2) by (auto dest: in_set_takeD)
  from run_moves_invariant[OF assms(1) this] show ?thesis
    using valid_positions_safe by blast
qed

lemma two_players_moves:
  "\<forall>(broken, i, cmd)\<in>set [(healthy, 0, ''MOVE RIGHT''), (healthy, 1, ''JUMP DOWN''), (healthy, 0, ''MOVE DOWN'')].
      i < MAX_CLIENTS \<and> active (players two_players ! i) \<and> cmd \<in> set move_commands"
  by (simp add: MAX_CLIENTS_def two_players_fields move_commands_def direction_word_def)

theorem moves_keep_positions_safe_witness:
  "valid_game two_players
   \<and> completed (run_commands
         (take 2 [(healthy, 0, ''MOVE RIGHT''), (healthy, 1, ''JUMP DOWN''), (healthy, 0, ''MOVE DOWN'')])
         two_players)
   \<and> positions_safe two_players
         (state_of (run_commands
            (take 2 [(healthy, 0, ''MOVE RIGHT''), (healthy, 1, ''JUMP DOWN''), (healthy, 0, ''MOVE DOWN'')])
            two_players))"
proof -
  from moves_keep_positions_safe[OF two_players_valid two_players_moves, of 2]
  obtain st' where
    "run_commands
       (take 2 [(healthy, 0, ''MOVE RIGHT''), (healthy, 1, ''JUMP DOWN''), (healthy, 0, ''MOVE DOWN'')])
       two_players = Ok st'"
    and "positions_safe two_players st'" by blast
  then show ?thesis using two_players_valid by simp
qed

text \<open>
  C5: a player that moves onto a pickup cell gains exactly 5 hp and the cell shows its marker.
  After any further MOVE and JUMP commands the cell is never a pickup again: once no active
  player stands on it, it is empty, a later move onto it succeeds as onto an empty cell, and
  the hp of whoever attempts that move stays as it was.
\<close>

theorem pickup_consumed:
  assumes "valid_game st" and "i < MAX_CLIENTS" and "active (players st ! i)"
    and "(kw, n) = (''MOVE'', 1) \<or> (kw, n) = (''JUMP'', 2)"
    and "destination d n (players st ! i) = (int r, int c)" and "r < 5" and "c < 5"
    and "grid st ! r ! c = CHR ''+''"
    and "st1 = state_of (handleCommand broken i (kw @ '' '' @ direction_word d) st)"
    and "\<forall>(b, k, cmd)\<in>set cmds. k < MAX_CLIENTS \<and> active (players st ! k) \<and> cmd \<in> set move_commands"
    and "st2 = state_of (run_commands cmds st1)"
    and "j < MAX_CLIENTS" and "active (players st2 ! j)"
    and "(kw', n') = (''MOVE'', 1) \<or> (kw', n') = (''JUMP'', 2)"
    and "destination d' n' (players st2 ! j) = (int r, int c)"
    and "st3 = state_of (handleCommand broken' j (kw' @ '' '' @ direction_word d') st2)"
  shows "hp (players st1 ! i) = hp (players st ! i) + 5
       \<and> x (players st1 ! i) = int r \<and> y (players st1 ! i) = int c
       \<and> grid st1 ! r ! c = marker i
       \<and> run_commands cmds st1 = Ok st2
       \<and> grid st2 ! r ! c \<noteq> CHR ''+''
       \<and> ((\<forall>k<MAX_CLIENTS. active (players st2 ! k) \<longrightarrow>
              (x (players st2 ! k), y (players st2 ! k)) \<noteq> (int r, int c))
            \<longrightarrow> grid st2 ! r ! c = CHR ''.''
                \<and> x (players st3 ! j) = int r \<and> y (players st3 ! j) = int c)
       \<and> hp (players st3 ! j) = hp (players st2 ! j)"
proof -
  note v = assms(1) and i = assms(2) and a = assms(3)
  have n: "n = 1 \<or> n = 2" using assms(4) by auto
  have n': "n' = 1 \<or> n' = 2" using assms(14) by auto
  have sh: "grid_shape (grid st)" and len: "length (players st) = MAX_CLIENTS"
    using v by (simp_all add: valid_game_def)
  have ig: "in_grid (players st ! i)" using v i a by (simp add: valid_game_def)
  have b: "0 \<le> int r" "int r < GRID_ROWS" "0 \<le> int c" "int c < GRID_COLS"
    using assms(6,7) by (simp_all add: GRID_ROWS_def GRID_COLS_def)
  have ne: "(int r, int c) \<noteq> (x (players st ! i), y (players st ! i))"
    using destination_cases(1)[OF ig n assms(5)] .
  have en: "enterable st (int r) (int c)" using b assms(8) by (simp add: enterable_def)
  then have un: "unobstructed st i (int r) (int c)"
    using enterable_iff_unobstructed[OF v i a ne] by simp
  have h1: "handleCommand broken i (kw @ '' '' @ direction_word d) st = move_command broken i d n st"
    using assms(4) handle_move_text[of broken i d st] by auto
  have st1: "st1 = broadcastState broken (moved st i (int r) (int c))"
    using assms(9) h1 move_command_valid(1)[OF v i a n assms(5), of broken] un by simp
  have v1: "valid_game st1"
    using move_command_valid(2)[OF v i a n assms(5)] un st1 by (simp add: broadcastState_valid)
  have il: "i < length (players st)" using i len by simp
  have p1: "players st1 ! i = (players st ! i)\<lparr>x := int r, y := int c, hp := hp (players st ! i) + 5\<rparr>"
    using moved_players(1)[OF il, of "int r" "int c"] assms(8) st1 by (simp add: broadcastState_game)
  have g1: "grid st1 ! r ! c = marker i"
    using moved_cell[OF sh ig b assms(6,7)] st1 by (simp add: broadcastState_game)
  have act1: "\<forall>k. active (players st1 ! k) = active (players st ! k)"
    using moved_players(3)[OF il] st1 by (simp add: broadcastState_game)
  have "\<forall>(b, k, cmd)\<in>set cmds. k < MAX_CLIENTS \<and> active (players st1 ! k) \<and> cmd \<in> set move_commands"
    using assms(10) act1 by auto
  from run_moves_invariant[OF v1 this] obtain s2 where s2:
    "run_commands cmds st1 = Ok s2" "valid_game s2" "terrain_kept st1 s2" by blast
  then have st2: "st2 = s2" using assms(11) by simp
  have mk: "marker i \<noteq> CHR ''#''" "marker i \<noteq> CHR ''+''"
    using marker_not_terrain[of i] i by (simp_all add: MAX_CLIENTS_def)
  have g2: "grid st2 ! r ! c \<noteq> CHR ''+''" "grid st2 ! r ! c \<noteq> CHR ''#''"
    using s2(3) st2 g1 mk assms(6,7) by (auto simp: terrain_kept_def)
  have v2: "valid_game st2" using s2(2) st2 by simp
  have ig2: "in_grid (players st2 ! j)" using v2 assms(12,13) by (simp add: valid_game_def)
  have ne2: "(int r, int c) \<noteq> (x (players st2 ! j), y (players st2 ! j))"
    using destination_cases(1)[OF ig2 n' assms(15)] .
  have h3: "handleCommand broken' j (kw' @ '' '' @ direction_word d') st2 = move_command broken' j d' n' st2"
    using assms(14) handle_move_text[of broken' j d' st2] by auto
  have st3: "st3 = broadcastState broken' (if unobstructed st2 j (int r) (int c) then moved st2 j (int r) (int c) else st2)"
    using assms(16) h3 move_command_valid(1)[OF v2 assms(12,13) n' assms(15), of broken'] by simp
  have jl: "j < length (players st2)" using v2 assms(12) by (simp add: valid_game_def)
  have hp3: "hp (players st3 ! j) = hp (players st2 ! j)"
    using st3 moved_players(1)[OF jl, of "int r" "int c"] g2(1) by (simp add: broadcastState_game)
  have free: "(\<forall>k<MAX_CLIENTS. active (players st2 ! k) \<longrightarrow>
              (x (players st2 ! k), y (players st2 ! k)) \<noteq> (int r, int c))
            \<longrightarrow> grid st2 ! r ! c = CHR ''.''
                \<and> x (players st3 ! j) = int r \<and> y (players st3 ! j) = int c"
  proof
    assume nobody: "\<forall>k<MAX_CLIENTS. active (players st2 ! k) \<longrightarrow>
              (x (players st2 ! k), y (players st2 ! k)) \<noteq> (int r, int c)"
    from v2 assms(6,7) have "grid st2 ! r ! c \<in> {CHR ''.'', CHR ''#'', CHR ''+''} \<or>
          (\<exists>k<MAX_CLIENTS. active (players st2 ! k) \<and> x (players st2 ! k) = int r \<and> y (players st2 ! k) = int c)"
      unfolding valid_game_def by blast
    with nobody g2 have dot: "grid st2 ! r ! c = CHR ''.''" by auto
    then have "enterable st2 (int r) (int c)" using b by (simp add: enterable_def)
    then have "unobstructed st2 j (int r) (int c)"
      using enterable_iff_unobstructed[OF v2 assms(12,13) ne2] by simp
    then have "players st3 ! j = (players st2 ! j)\<lparr>x := int r, y := int c,
           hp := hp (players st2 ! j) + (if grid st2 ! nat (int r) ! nat (int c) = CHR ''+'' then 5 else 0)\<rparr>"
      using st3 moved_players(1)[OF jl, of "int r" "int c"] by (simp add: broadcastState_game)
    with dot show "grid st2 ! r ! c = CHR ''.''
                \<and> x (players st3 ! j) = int r \<and> y (players st3 ! j) = int c" by simp
  qed
  show ?thesis
    using p1 g1 s2(1) st2 g2(1) free hp3 by simp
qed

lemma near_pickup_fields:
  "grid near_pickup = [''A...+'', ''..B+.'', ''..#+.'', ''.+...'', ''.....'']"
  "players near_pickup =
     [\<lparr>x = 0, y = 0, hp = 100, active = True\<rparr>, \<lparr>x = 1, y = 2, hp = 100, active = True\<rparr>,
      \<lparr>x = - 1, y = - 1, hp = 100, active = False\<rparr>, \<lparr>x = - 1, y = - 1, hp = 100, active = False\<rparr>]"
  by code_simp+

lemma near_pickup_valid: "valid_game near_pickup"
  unfolding valid_game_def
  by (simp add: near_pickup_fields grid_shape_def MAX_CLIENTS_def in_grid_def GRID_ROWS_def
      GRID_COLS_def marker_simps numeral_eq_Suc All_less_Suc Ex_less_Suc)

theorem pickup_consumed_witness:
  "valid_game near_pickup \<and> grid near_pickup ! 1 ! 3 = CHR ''+''
   \<and> destination RIGHT 1 (players near_pickup ! 1) = (1, 3)
   \<and> hp (players near_pickup ! 1) = 100
   \<and> hp (players (state_of (handleCommand healthy 1 ''MOVE RIGHT'' near_pickup)) ! 1) = 105
   \<and> grid (state_of (run_commands [(healthy, 1, ''MOVE LEFT'')]
             (state_of (handleCommand healthy 1 ''MOVE RIGHT'' near_pickup)))) ! 1 ! 3 = CHR ''.''
   \<and> hp (players (state_of (handleCommand healthy 1 ''MOVE RIGHT''
           (state_of (run_commands [(healthy, 1, ''MOVE LEFT'')]
             (state_of (handleCommand healthy 1 ''MOVE RIGHT'' near_pickup)))))) ! 1) = 105"
proof -
  let ?st1 = "state_of (handleCommand healthy 1 ''MOVE RIGHT'' near_pickup)"
  let ?st2 = "state_of (run_commands [(healthy, 1, ''MOVE LEFT'')] ?st1)"
  let ?st3 = "state_of (handleCommand healthy 1 ''MOVE RIGHT'' ?st2)"
  have i: "(1::nat) < MAX_CLIENTS" by (simp add: MAX_CLIENTS_def)
  have a: "active (players near_pickup ! 1)" by (simp add: near_pickup_fields)
  have kw: "(''MOVE'', 1::int) = (''MOVE'', 1) \<or> (''MOVE'', 1::int) = (''JUMP'', 2)" by simp
  have d: "destination RIGHT 1 (players near_pickup ! 1) = (int 1, int 3)"
    by (simp add: destination_def near_pickup_fields)
  have p: "grid near_pickup ! 1 ! 3 = CHR ''+''" by (simp add: near_pickup_fields)
  have c1: "?st1 = state_of (handleCommand healthy 1 (''MOVE'' @ '' '' @ direction_word RIGHT) near_pickup)"
    by (simp add: direction_word_def)
  have cmds: "\<forall>(b, k, cmd)\<in>set [(healthy, 1::nat, ''MOVE LEFT'')].
      k < MAX_CLIENTS \<and> active (players near_pickup ! k) \<and> cmd \<in> set move_commands"
    by (simp add: MAX_CLIENTS_def near_pickup_fields move_commands_def direction_word_def)
  have p2: "players ?st2 ! 1 = \<lparr>x = 1, y = 2, hp = 105, active = True\<rparr>" by code_simp
  have a2: "active (players ?st2 ! 1)" by code_simp
  have d2: "destination RIGHT 1 (players ?st2 ! 1) = (int 1, int 3)"
    by code_simp
  have c3: "?st3 = state_of (handleCommand healthy 1 (''MOVE'' @ '' '' @ direction_word RIGHT) ?st2)"
    by (simp add: direction_word_def)
  have free: "\<forall>k<MAX_CLIENTS. active (players ?st2 ! k) \<longrightarrow>
      (x (players ?st2 ! k), y (players ?st2 ! k)) \<noteq> (int 1, int 3)"
  proof -
    have "players ?st2 = [\<lparr>x = 0, y = 0, hp = 100, active = True\<rparr>, \<lparr>x = 1, y = 2, hp = 105, active = True\<rparr>,
      \<lparr>x = - 1, y = - 1, hp = 100, active = False\<rparr>, \<lparr>x = - 1, y = - 1, hp = 100, active = False\<rparr>]"
      by code_simp
    then show ?thesis by (simp add: MAX_CLIENTS_def numeral_eq_Suc All_less_Suc)
  qed
  have h: "hp (players near_pickup ! 1) = 100" by (simp add: near_pickup_fields)
  show ?thesis
    using pickup_consumed[OF near_pickup_valid i a kw d _ _ p c1 cmds refl i a2 kw d2 c3] free
      near_pickup_valid p d h p2
    by simp
qed

subsection \<open>Sends of the broadcast and chat loops\<close>

lemma index_of_unique:
  assumes "k < length xs" and "xs ! k = a" and "\<And>j. j < length xs \<Longrightarrow> xs ! j = a \<Longrightarrow> j = k"
  shows "index_of xs a = Some k"
  using assms
proof (induction xs arbitrary: k)
  case Nil
  then show ?case by simp
next
  case (Cons b xs)
  show ?case
  proof (cases k)
    case 0
    from Cons.prems(2) 0 have "b = a" by simp
    then show ?thesis using 0 by simp
  next
    case (Suc k')
    have nb: "b \<noteq> a"
    proof
      assume "b = a"
      then have "(b # xs) ! 0 = a" by simp
      moreover have "0 < length (b # xs)" by simp
      ultimately have "0 = k" by (rule Cons.prems(3)[rotated])
      with Suc show False by simp
    qed
    have k': "k' < length xs" "xs ! k' = a" using Cons.prems(1,2) Suc by simp_all
    have "\<And>j. j < length xs \<Longrightarrow> xs ! j = a \<Longrightarrow> j = k'"
    proof -
      fix j assume "j < length xs" "xs ! j = a"
      then have "Suc j < length (b # xs)" "(b # xs) ! Suc j = a" by simp_all
      then have "Suc j = k" by (rule Cons.prems(3))
      with Suc show "j = k'" by simp
    qed
    with Cons.IH[OF k'] have "index_of xs a = Some k'" by blast
    with nb Suc show ?thesis by simp
  qed
qed

lemma registry_unique:
  assumes "registry_ok st" "i < MAX_CLIENTS" "j < MAX_CLIENTS"
    "g_clientSockets st ! i = Some s" "g_clientSockets st ! j = Some s"
  shows "i = j"
proof -
  from assms(1) have "\<forall>i<MAX_CLIENTS. \<forall>j<MAX_CLIENTS. \<forall>s.
          g_clientSockets st ! i = Some s \<and> g_clientSockets st ! j = Some s \<longrightarrow> i = j"
    unfolding registry_ok_def by (rule conjunct2)
  then show ?thesis using assms(2-5) by blast
qed

lemma registry_length: "registry_ok st \<Longrightarrow> length (g_clientSockets st) = MAX_CLIENTS"
  unfolding registry_ok_def by (rule conjunct1)

lemma drop_socket_registered:
  assumes "registry_ok st" "k < MAX_CLIENTS" "g_clientSockets st ! k = Some s"
  shows "drop_socket st s = st\<lparr>closed := s # closed st, g_clientSockets := (g_clientSockets st)[k := None]\<rparr>"
proof -
  have len: "length (g_clientSockets st) = MAX_CLIENTS" using assms(1) by (rule registry_length)
  have kl: "k < length (g_clientSockets st)" using assms(2) len by simp
  have "index_of (g_clientSockets st) (Some s) = Some k"
  proof (rule index_of_unique[OF kl assms(3)])
    fix j assume "j < length (g_clientSockets st)" "g_clientSockets st ! j = Some s"
    then have "j < MAX_CLIENTS" using len by simp
    then show "j = k" using registry_unique[OF assms(1) _ assms(2) _ assms(3)] \<open>g_clientSockets st ! j = Some s\<close>
      by blast
  qed
  then show ?thesis by (simp add: drop_socket_def Let_def)
qed

lemma update_None_Some:
  "xs[k := None] ! i = Some s \<Longrightarrow> xs ! i = Some s"
  by (cases "k < length xs"; cases "i = k"; simp add: list_update_beyond)

lemma registry_ok_drop:
  assumes "registry_ok st"
  shows "registry_ok (st\<lparr>closed := cl, g_clientSockets := (g_clientSockets st)[k := None]\<rparr>)"
  unfolding registry_ok_def
proof (intro conjI allI impI)
  show "length (g_clientSockets (st\<lparr>closed := cl, g_clientSockets := (g_clientSockets st)[k := None]\<rparr>)) = MAX_CLIENTS"
    using registry_length[OF assms] by simp
next
  fix i j s
  assume i: "i < MAX_CLIENTS" and j: "j < MAX_CLIENTS"
    and h: "g_clientSockets (st\<lparr>closed := cl, g_clientSockets := (g_clientSockets st)[k := None]\<rparr>) ! i = Some s \<and>
            g_clientSockets (st\<lparr>closed := cl, g_clientSockets := (g_clientSockets st)[k := None]\<rparr>) ! j = Some s"
  then have "g_clientSockets st ! i = Some s" "g_clientSockets st ! j = Some s"
    by (auto dest: update_None_Some)
  with i j show "i = j" by (rule registry_unique[OF assms])
qed

lemma registry_ok_deliver: "registry_ok (deliver st s m) = registry_ok st"
  by (simp add: registry_ok_def deliver_def)

lemma recipients_agree:
  assumes "\<forall>k\<in>set ks. g_clientSockets st' ! k = g_clientSockets st ! k \<and>
             (\<forall>t. g_clientSockets st ! k = Some t \<longrightarrow> can_send broken st' t = can_send broken st t)"
  shows "recipients broken st' ks = recipients broken st ks"
  using assms by (induction ks) (simp_all split: option.splits)

lemma broadcast_loop_sent:
  assumes "registry_ok st" "distinct ks" "\<forall>k\<in>set ks. k < MAX_CLIENTS"
  shows "sent (broadcast_loop broken m ks st) = sent st @ map (\<lambda>s. (s, m)) (recipients broken st ks)"
  using assms
proof (induction ks arbitrary: st)
  case Nil
  then show ?case by simp
next
  case (Cons k ks)
  have d: "distinct ks" "k \<notin> set ks" "\<forall>k\<in>set ks. k < MAX_CLIENTS" "k < MAX_CLIENTS"
    using Cons.prems by auto
  show ?case
  proof (cases "g_clientSockets st ! k")
    case None
    then show ?thesis using Cons.IH[OF Cons.prems(1) d(1,3)] by simp
  next
    case (Some s)
    show ?thesis
    proof (cases "can_send broken st s")
      case True
      let ?st' = "deliver st s m"
      have r: "registry_ok ?st'" using Cons.prems(1) by (simp add: registry_ok_deliver)
      have "recipients broken ?st' ks = recipients broken st ks"
        by (rule recipients_agree) (simp add: deliver_def can_send_def)
      with Cons.IH[OF r d(1,3)] Some True show ?thesis by (simp add: deliver_def)
    next
      case False
      let ?st' = "st\<lparr>closed := s # closed st, g_clientSockets := (g_clientSockets st)[k := None]\<rparr>"
      have ds: "drop_socket st s = ?st'"
        using drop_socket_registered[OF Cons.prems(1) d(4) Some] .
      have r: "registry_ok ?st'" using Cons.prems(1) by (rule registry_ok_drop)
      have "recipients broken ?st' ks = recipients broken st ks"
      proof (rule recipients_agree, intro ballI conjI allI impI)
        fix k' assume k': "k' \<in> set ks"
        then have ne: "k' \<noteq> k" using d(2) by auto
        then show "g_clientSockets ?st' ! k' = g_clientSockets st ! k'" by simp
        fix t assume t: "g_clientSockets st ! k' = Some t"
        have "t \<noteq> s"
        proof
          assume "t = s"
          with t Some have "g_clientSockets st ! k' = Some s" by simp
          moreover have "k' < MAX_CLIENTS" using d(3) k' by blast
          ultimately have "k' = k" using registry_unique[OF Cons.prems(1) _ d(4) _ Some] by blast
          with ne show False by simp
        qed
        then show "can_send broken ?st' t = can_send broken st t" by (simp add: can_send_def)
      qed
      with Cons.IH[OF r d(1,3)] Some False ds show ?thesis by simp
    qed
  qed
qed

lemma say_loop_as_broadcast:
  "say_loop broken p m ks st = broadcast_loop broken m (filter (\<lambda>k. k \<noteq> p) ks) st"
  by (induction ks arbitrary: st) (simp_all split: option.splits)

lemma in_recipients:
  "s \<in> set (recipients broken st ks) \<longleftrightarrow>
     (\<exists>k\<in>set ks. g_clientSockets st ! k = Some s \<and> can_send broken st s)"
proof (induction ks)
  case Nil
  show ?case by simp
next
  case (Cons k ks)
  show ?case
  proof (cases "g_clientSockets st ! k")
    case None
    with Cons show ?thesis by simp
  next
    case (Some t)
    with Cons show ?thesis by (cases "can_send broken st t") auto
  qed
qed

subsection \<open>Claim on the start of a session\<close>

lemma top_marker_either:
  "top_marker ps js r c ch = ch \<or> (\<exists>j\<in>set js. stands_at (ps ! j) r c \<and> top_marker ps js r c ch = marker j)"
proof (cases "\<exists>j\<in>set js. stands_at (ps ! j) r c")
  case True
  from top_marker_some[OF this, of ch] show ?thesis by blast
next
  case False
  then have "top_marker ps js r c ch = ch" by (simp add: top_marker_none)
  then show ?thesis ..
qed

lemma refresh_cells:
  assumes "grid_shape (grid st)"
    and "\<forall>i<length (players st). active (players st ! i) \<and> hp (players st ! i) > 0 \<longrightarrow> in_grid (players st ! i)"
  shows "\<exists>g. refreshPlayerPositions st = Ok (st\<lparr>grid := g\<rparr>) \<and> grid_shape g \<and>
           (\<forall>r<5. \<forall>c<5. g ! r ! c =
              top_marker (players st) [0..<length (players st)] r c (clear_cell (grid st ! r ! c)))"
proof -
  let ?st0 = "st\<lparr>grid := map (map clear_cell) (grid st)\<rparr>"
  have a: "grid_shape (grid ?st0)" using assms(1) by (simp add: map_clear_shape)
  have b: "\<forall>i\<in>set [0..<length (players ?st0)]. active (players ?st0 ! i) \<and> hp (players ?st0 ! i) > 0
          \<longrightarrow> in_grid (players ?st0 ! i)"
    using assms(2) by simp
  from place_players_ok[OF a b] obtain g where g:
    "place_players [0..<length (players ?st0)] ?st0 = Ok (?st0\<lparr>grid := g\<rparr>)" "grid_shape g"
    "\<forall>r<5. \<forall>c<5. g ! r ! c = top_marker (players ?st0) [0..<length (players ?st0)] r c (grid ?st0 ! r ! c)"
    by blast
  have "refreshPlayerPositions st = Ok (st\<lparr>grid := g\<rparr>)"
    using g(1) by (simp add: refreshPlayerPositions_def)
  moreover have "\<forall>r<5. \<forall>c<5. g ! r ! c =
              top_marker (players st) [0..<length (players st)] r c (clear_cell (grid st ! r ! c))"
    using g(3) assms(1) by (simp add: map_clear_nth)
  ultimately show ?thesis using g(2) by blast
qed

lemma clear_cell_not_marker: "i < 4 \<Longrightarrow> clear_cell ch \<noteq> marker i"
  using marker_not_terrain[of i] by (auto simp: clear_cell_def)

lemma buildStateString_cong:
  "grid a = grid b \<Longrightarrow> players a = players b \<Longrightarrow> buildStateString a = buildStateString b"
  by (simp add: buildStateString_def cong: if_cong)

lemma broadcastState_sent:
  assumes "registry_ok st"
  shows "sent (broadcastState broken st) =
           sent st @ map (\<lambda>s. (s, buildStateString st)) (recipients broken st [0..<MAX_CLIENTS])"
proof -
  have "sent (broadcast_loop broken (buildStateString st) [0..<MAX_CLIENTS] st) =
          sent st @ map (\<lambda>s. (s, buildStateString st)) (recipients broken st [0..<MAX_CLIENTS])"
    by (rule broadcast_loop_sent[OF assms]) simp_all
  then show ?thesis using registry_length[OF assms] by (simp add: broadcastState_def)
qed

text \<open>
  The start block of a session when the registry still holds, in the slot, the socket
  \<open>s\<close> that line 424 read: the player gets position (slot, 0), hp 100 and the active flag,
  the READY line goes to \<open>s\<close> and the state broadcast follows, to every registered socket
  that can be written, \<open>s\<close> among them. In the grid of that broadcast the marker of the slot
  stands on the start cell and nowhere else.
\<close>

lemma session_start_effect:
  assumes "grid_shape (grid st)" and "length (players st) = MAX_CLIENTS" and "i < MAX_CLIENTS"
    and "\<forall>j<MAX_CLIENTS. j \<noteq> i \<and> active (players st ! j) \<and> 0 < hp (players st ! j)
           \<longrightarrow> in_grid (players st ! j)"
    and "registry_ok st" and "g_clientSockets st ! i = Some s" and "can_send broken st s"
  shows "\<exists>st'. clientHandler_start broken i (Some s) st = Ok st'
           \<and> players st' ! i = \<lparr>x = int i, y = 0, hp = 100, active = True\<rparr>
           \<and> (\<forall>r<5. \<forall>c<5. grid st' ! r ! c = marker i \<longrightarrow> r = i \<and> c = 0)
           \<and> sent st' = sent st @ (s, ''READY'' @ [nl])
                 # map (\<lambda>t. (t, buildStateString st')) (recipients broken st [0..<MAX_CLIENTS])
           \<and> s \<in> set (recipients broken st [0..<MAX_CLIENTS])"
proof -
  let ?q = "(players st ! i)\<lparr>x := int i, y := 0, hp := 100, active := True\<rparr>"
  let ?st0 = "st\<lparr>players := (players st)[i := ?q]\<rparr>"
  have il: "i < length (players st)" using assms(2,3) by simp
  have qi: "in_grid ?q" using assms(3) by (simp add: in_grid_def MAX_CLIENTS_def GRID_ROWS_def GRID_COLS_def)
  have ig: "\<forall>j<length (players ?st0). active (players ?st0 ! j) \<and> hp (players ?st0 ! j) > 0
              \<longrightarrow> in_grid (players ?st0 ! j)"
  proof (intro allI impI)
    fix j assume j: "j < length (players ?st0)"
      and a: "active (players ?st0 ! j) \<and> hp (players ?st0 ! j) > 0"
    show "in_grid (players ?st0 ! j)"
    proof (cases "j = i")
      case True
      then show ?thesis using il qi by simp
    next
      case False
      then show ?thesis using assms(2,4) j a by simp
    qed
  qed
  have sh0: "grid_shape (grid ?st0)" using assms(1) by simp
  from refresh_cells[OF sh0 ig] obtain g where g:
    "refreshPlayerPositions ?st0 = Ok (?st0\<lparr>grid := g\<rparr>)" "grid_shape g"
    "\<forall>r<5. \<forall>c<5. g ! r ! c =
        top_marker (players ?st0) [0..<length (players ?st0)] r c (clear_cell (grid ?st0 ! r ! c))"
    by blast
  let ?st1 = "?st0\<lparr>grid := g\<rparr>"
  let ?st2 = "deliver ?st1 s (''READY'' @ [nl])"
  let ?st' = "broadcastState broken ?st2"
  have cs: "can_send broken ?st1 s" using assms(7) by (simp add: can_send_def)
  have run: "clientHandler_start broken i (Some s) st = Ok ?st'"
    using g(1) cs by (simp add: clientHandler_start_def Let_def)
  have pl: "players ?st' = (players st)[i := ?q]" by (simp add: broadcastState_game deliver_def)
  have gr: "grid ?st' = g" by (simp add: broadcastState_game deliver_def)
  have p: "players ?st' ! i = \<lparr>x = int i, y = 0, hp = 100, active = True\<rparr>"
    using pl il by simp
  have only: "\<forall>r<5. \<forall>c<5. grid ?st' ! r ! c = marker i \<longrightarrow> r = i \<and> c = 0"
  proof (intro allI impI)
    fix r c :: nat assume rc: "r < 5" "c < 5" and m: "grid ?st' ! r ! c = marker i"
    let ?ps = "(players st)[i := ?q]"
    let ?ch = "clear_cell (grid st ! r ! c)"
    have e: "g ! r ! c = top_marker ?ps [0..<length ?ps] r c ?ch" using g(3) rc by simp
    have i4: "i < 4" using assms(3) by (simp add: MAX_CLIENTS_def)
    from top_marker_either[of ?ps "[0..<length ?ps]" r c ?ch]
    show "r = i \<and> c = 0"
    proof
      assume "top_marker ?ps [0..<length ?ps] r c ?ch = ?ch"
      with e m gr clear_cell_not_marker[OF i4, of "grid st ! r ! c"] show ?thesis by simp
    next
      assume "\<exists>j\<in>set [0..<length ?ps]. stands_at (?ps ! j) r c \<and>
                top_marker ?ps [0..<length ?ps] r c ?ch = marker j"
      then obtain j where j: "j < length ?ps" "stands_at (?ps ! j) r c"
        "top_marker ?ps [0..<length ?ps] r c ?ch = marker j" by auto
      with e m gr have "marker j = marker i" by simp
      moreover have "j < 4" using j(1) assms(2) by (simp add: MAX_CLIENTS_def)
      ultimately have "j = i" using marker_inj[of j i] i4 by blast
      with j(2) il show ?thesis by (simp add: stands_at_def)
    qed
  qed
  have reg2: "registry_ok ?st2" using assms(5) by (simp add: registry_ok_def deliver_def)
  have rec: "recipients broken ?st2 [0..<MAX_CLIENTS] = recipients broken st [0..<MAX_CLIENTS]"
    by (rule recipients_agree) (simp add: deliver_def can_send_def)
  have bs: "buildStateString ?st2 = buildStateString ?st'"
    by (rule buildStateString_cong) (simp_all add: broadcastState_game)
  have snt: "sent ?st' = sent st @ (s, ''READY'' @ [nl])
                 # map (\<lambda>t. (t, buildStateString ?st')) (recipients broken st [0..<MAX_CLIENTS])"
    using broadcastState_sent[OF reg2, of broken] rec bs by (simp add: deliver_def)
  have mem: "s \<in> set (recipients broken st [0..<MAX_CLIENTS])"
    using assms(3,6,7) by (auto simp: in_recipients)
  show ?thesis using run p only snt mem by blast
qed

text \<open>
  C8: a session that takes over a slot freed by QUIT does not reliably start fresh. After
  the QUIT of the first player of \<open>two_players\<close>, socket 12 is accepted into slot 0 and its
  session starts: position (0,0), hp 100, active, and READY followed by the full state
  (header, five grid rows, roster of players 0 and 1) sent to it. Then the thread of the
  player that quit runs its cleanup, which writes slot 0 by index: the new player is
  deactivated, its marker is wiped from the grid and socket 12, still open, is struck from the
  registry, so the state that is broadcast next shows no player 0 and does not reach the new
  client. When the cleanup runs before the start instead, the start either raises
  AttributeError on the emptied registry entry (socket read after the cleanup) or sends READY
  but leaves the new client out of the broadcast (socket read before it).
\<close>

theorem reused_slot_clobbered:
  "snd (accept_client healthy 12 quit_handled) = Some 0
   \<and> snapshot slot_reused =
       ([''....+'', ''B..+.'', ''..#+.'', ''.+...'', ''.....''],
        [\<lparr>x = - 1, y = - 1, hp = 100, active = False\<rparr>, \<lparr>x = 1, y = 0, hp = 100, active = True\<rparr>,
         \<lparr>x = - 1, y = - 1, hp = 100, active = False\<rparr>, \<lparr>x = - 1, y = - 1, hp = 100, active = False\<rparr>],
        2, [Some 12, Some 11, None, None], [10])
   \<and> completed (clientHandler_start healthy 0 (Some 12) slot_reused)
   \<and> snapshot newcomer_started =
       ([''A...+'', ''B..+.'', ''..#+.'', ''.+...'', ''.....''],
        [\<lparr>x = 0, y = 0, hp = 100, active = True\<rparr>, \<lparr>x = 1, y = 0, hp = 100, active = True\<rparr>,
         \<lparr>x = - 1, y = - 1, hp = 100, active = False\<rparr>, \<lparr>x = - 1, y = - 1, hp = 100, active = False\<rparr>],
        2, [Some 12, Some 11, None, None], [10])
   \<and> drop (length (sent slot_reused)) (sent newcomer_started)
        = [(12, ''READY'' @ [nl]),
           (12, ''STATE'' @ [nl] @ ''A...+'' @ [nl] @ ''B..+.'' @ [nl] @ ''..#+.'' @ [nl]
                  @ ''.+...'' @ [nl] @ ''.....'' @ [nl] @ ''Players:'' @ [nl]
                  @ ''  Player 0: HP=100 Pos = (0,0)'' @ [nl] @ ''  Player 1: HP=100 Pos = (1,0)'' @ [nl]),
           (11, ''STATE'' @ [nl] @ ''A...+'' @ [nl] @ ''B..+.'' @ [nl] @ ''..#+.'' @ [nl]
                  @ ''.+...'' @ [nl] @ ''.....'' @ [nl] @ ''Players:'' @ [nl]
                  @ ''  Player 0: HP=100 Pos = (0,0)'' @ [nl] @ ''  Player 1: HP=100 Pos = (1,0)'' @ [nl])]
   \<and> command_loop healthy 0 10 [] newcomer_started
        = Exited (thread_state (command_loop healthy 0 10 [] newcomer_started))
   \<and> snapshot (thread_state (command_loop healthy 0 10 [] newcomer_started)) =
       ([''....+'', ''B..+.'', ''..#+.'', ''.+...'', ''.....''],
        [\<lparr>x = 0, y = 0, hp = 100, active = False\<rparr>, \<lparr>x = 1, y = 0, hp = 100, active = True\<rparr>,
         \<lparr>x = - 1, y = - 1, hp = 100, active = False\<rparr>, \<lparr>x = - 1, y = - 1, hp = 100, active = False\<rparr>],
        2, [None, Some 11, None, None], [10])
   \<and> drop (length (sent newcomer_started))
          (sent (thread_state (command_loop healthy 0 10 [] newcomer_started)))
        = [(11, ''STATE'' @ [nl] @ ''....+'' @ [nl] @ ''B..+.'' @ [nl] @ ''..#+.'' @ [nl]
                  @ ''.+...'' @ [nl] @ ''.....'' @ [nl] @ ''Players:'' @ [nl]
                  @ ''  Player 1: HP=100 Pos = (1,0)'' @ [nl])]
   \<and> g_clientSockets cleaned_first = [None, Some 11, None, None]
   \<and> clientHandler_start healthy 0 (g_clientSockets cleaned_first ! 0) cleaned_first
        = Raised AttributeError
            (state_of (clientHandler_start healthy 0 (g_clientSockets cleaned_first ! 0) cleaned_first))
   \<and> completed (clientHandler_start healthy 0 (Some 12) cleaned_first)
   \<and> drop (length (sent cleaned_first))
          (sent (state_of (clientHandler_start healthy 0 (Some 12) cleaned_first)))
        = [(12, ''READY'' @ [nl]),
           (11, ''STATE'' @ [nl] @ ''A...+'' @ [nl] @ ''B..+.'' @ [nl] @ ''..#+.'' @ [nl]
                  @ ''.+...'' @ [nl] @ ''.....'' @ [nl] @ ''Players:'' @ [nl]
                  @ ''  Player 0: HP=100 Pos = (0,0)'' @ [nl] @ ''  Player 1: HP=100 Pos = (1,0)'' @ [nl])]"
  by code_simp

subsection \<open>Claims on disconnection, broadcast failure and dispatch\<close>

lemma cleanup_keeps_count:
  "clientCount (state_of (clientHandler_cleanup broken i st)) = clientCount st"
proof -
  have rb: "\<And>s. clientCount (state_of (refresh_and_broadcast broken s)) = clientCount s"
  proof -
    fix s
    have pp: "\<And>js t. clientCount (state_of (place_players js t)) = clientCount t"
    proof -
      fix js t show "clientCount (state_of (place_players js t)) = clientCount t"
        by (induction js arbitrary: t) (auto simp: Let_def split: option.splits)
    qed
    show "clientCount (state_of (refresh_and_broadcast broken s)) = clientCount s"
    proof (cases "refreshPlayerPositions s")
      case (Ok t)
      with pp[of "[0..<length (players s)]" "s\<lparr>grid := map (map clear_cell) (grid s)\<rparr>"]
      show ?thesis by (simp add: refresh_and_broadcast_def refreshPlayerPositions_def broadcastState_game)
    next
      case (Raised e t)
      with pp[of "[0..<length (players s)]" "s\<lparr>grid := map (map clear_cell) (grid s)\<rparr>"]
      show ?thesis by (simp add: refresh_and_broadcast_def refreshPlayerPositions_def)
    qed
  qed
  show ?thesis
    by (simp add: clientHandler_cleanup_def Let_def rb split: option.splits)
qed

text \<open>
  C1: the release after a transport error is not the release of QUIT. From the state with
  two players, the second player's thread ends on a failed read: the slot is deactivated, its
  grid cell cleared and its registry entry freed, but clientCount stays at 2, while the same
  player's QUIT brings it to 1.
\<close>

theorem transport_error_keeps_count:
  "command_loop healthy 1 11 [RecvError] two_players
     = Exited (thread_state (command_loop healthy 1 11 [RecvError] two_players))
   \<and> active (players (thread_state (command_loop healthy 1 11 [RecvError] two_players)) ! 1) = False
   \<and> grid (thread_state (command_loop healthy 1 11 [RecvError] two_players))
        = [''A...+'', ''...+.'', ''..#+.'', ''.+...'', ''.....'']
   \<and> g_clientSockets (thread_state (command_loop healthy 1 11 [RecvError] two_players))
        = [Some 10, None, None, None]
   \<and> clientCount (thread_state (command_loop healthy 1 11 [RecvError] two_players)) = 2
   \<and> clientCount (thread_state (command_loop healthy 1 11 [Data ''QUIT''] two_players)) = 1"
  by code_simp

text \<open>
  C2: a failed send in broadcastState closes the socket and frees its registry entry, and
  the other sockets still get the state; the player of the failed session stays active in the
  roster and clientCount is not decremented.
\<close>

theorem broadcast_failure_keeps_player:
  "g_clientSockets (broadcastState broken_11 two_players) = [Some 10, None, None, None]
   \<and> closed (broadcastState broken_11 two_players) = [11]
   \<and> sent (broadcastState broken_11 two_players)
        = sent two_players @ [(10, buildStateString two_players)]
   \<and> active (players (broadcastState broken_11 two_players) ! 1) = True
   \<and> clientCount (broadcastState broken_11 two_players) = 2"
  by code_simp

lemma strict_words:
  "first_word (''MOVE '' @ direction_word d) = ''MOVE''"
  "first_word (''JUMP '' @ direction_word d) = ''JUMP''"
  "second_word (''MOVE '' @ direction_word d) = direction_word d"
  "second_word (''JUMP '' @ direction_word d) = direction_word d"
  "first_word ''ATTACK'' = ''ATTACK''"
  "first_word ''QUIT'' = ''QUIT''"
  "first_word (''SAY '' @ text) = ''SAY''"
  by (cases d; simp add: first_word_def second_word_def is_space_def direction_word_def)+

lemma strict_move_text:
  "handleCommand_strict broken i (''MOVE '' @ direction_word d) st = move_command broken i d 1 st"
  "handleCommand_strict broken i (''JUMP '' @ direction_word d) st = move_command broken i d 2 st"
  by (cases d; simp add: handleCommand_strict_def direction_branches_strict_def strict_words
        del: append.simps; simp add: direction_word_def)+

text \<open>
  C7, as the claim states it: the two dispatchers differ. On \<^verbatim>\<open>MOVE DOWN UP\<close> the substring
  tests of handleCommand find UP first and the move of the second player is blocked by the
  first; the strict dispatcher reads DOWN and the player moves to row 2.
\<close>

theorem strict_dispatch_differs:
  "x (players (state_of (handleCommand healthy 1 ''MOVE DOWN UP'' two_players)) ! 1) = 1
   \<and> x (players (state_of (handleCommand_strict healthy 1 ''MOVE DOWN UP'' two_players)) ! 1) = 2
   \<and> handleCommand healthy 1 ''MOVE DOWN UP'' two_players
        \<noteq> handleCommand_strict healthy 1 ''MOVE DOWN UP'' two_players"
proof -
  have a: "x (players (state_of (handleCommand healthy 1 ''MOVE DOWN UP'' two_players)) ! 1) = 1"
    by code_simp
  have b: "x (players (state_of (handleCommand_strict healthy 1 ''MOVE DOWN UP'' two_players)) ! 1) = 2"
    by code_simp
  from a b have "handleCommand healthy 1 ''MOVE DOWN UP'' two_players
        \<noteq> handleCommand_strict healthy 1 ''MOVE DOWN UP'' two_players" by auto
  with a b show ?thesis by blast
qed

text \<open>
  C7, amended: on the command lines of the protocol (MOVE or JUMP with one of the four
  directions, ATTACK, QUIT, SAY followed by a space and the text) the two dispatchers select
  the same command and direction, hence give the same state and the same replies.
\<close>

theorem strict_dispatch_agrees_on_protocol:
  assumes "protocol_command cmd"
  shows "handleCommand broken i cmd st = handleCommand_strict broken i cmd st"
proof -
  from assms consider (mv) "cmd \<in> set move_commands" | (at) "cmd = ''ATTACK''"
    | (qu) "cmd = ''QUIT''" | (sa) "take 4 cmd = ''SAY ''"
    unfolding protocol_command_def by blast
  then show ?thesis
  proof cases
    case mv
    then show ?thesis
    proof (rule move_commands_cases)
      fix d assume "cmd = ''MOVE '' @ direction_word d"
      then show ?thesis by (simp only: handle_move_text strict_move_text)
    next
      fix d assume "cmd = ''JUMP '' @ direction_word d"
      then show ?thesis by (simp only: handle_move_text strict_move_text)
    qed
  next
    case at
    then show ?thesis by (simp add: handleCommand_def handleCommand_strict_def strict_words)
  next
    case qu
    then show ?thesis by (simp add: handleCommand_def handleCommand_strict_def strict_words)
  next
    case sa
    have "cmd = take 4 cmd @ drop 4 cmd" by simp
    with sa have c: "cmd = ''SAY '' @ drop 4 cmd" by simp
    have fw: "first_word cmd = ''SAY''" by (subst c) (rule strict_words(7))
    have "startswith (''SAY '' @ drop 4 cmd) ''SAY''"
      "\<not> startswith (''SAY '' @ drop 4 cmd) ''MOVE''"
      "\<not> startswith (''SAY '' @ drop 4 cmd) ''ATTACK''"
      "\<not> startswith (''SAY '' @ drop 4 cmd) ''QUIT''"
      "\<not> startswith (''SAY '' @ drop 4 cmd) ''JUMP''" by simp_all
    with c have "startswith cmd ''SAY''" "\<not> startswith cmd ''MOVE''" "\<not> startswith cmd ''ATTACK''"
      "\<not> startswith cmd ''QUIT''" "\<not> startswith cmd ''JUMP''" by simp_all
    then have "handleCommand broken i cmd st = say_command broken i cmd st"
      by (simp add: handleCommand_def)
    with fw show ?thesis by (simp add: handleCommand_strict_def)
  qed
qed

theorem strict_dispatch_agrees_on_protocol_witness:
  "protocol_command ''JUMP LEFT''
   \<and> handleCommand healthy 1 ''JUMP LEFT'' two_players
       = handleCommand_strict healthy 1 ''JUMP LEFT'' two_players
   \<and> protocol_command ''SAY MOVE UP''
   \<and> handleCommand healthy 1 ''SAY MOVE UP'' two_players
       = handleCommand_strict healthy 1 ''SAY MOVE UP'' two_players"
proof -
  have a: "protocol_command ''JUMP LEFT''"
    by (simp add: protocol_command_def move_commands_def direction_word_def)
  have b: "protocol_command ''SAY MOVE UP''" by (simp add: protocol_command_def)
  show ?thesis
    using strict_dispatch_agrees_on_protocol[OF a, of healthy 1 two_players]
      strict_dispatch_agrees_on_protocol[OF b, of healthy 1 two_players] a b
    by simp
qed

subsection \<open>Claim on SAY\<close>

lemma split_space_word: "CHR '' '' \<notin> set w \<Longrightarrow> split_space w = [w]"
  by (induction w) auto

lemma say_message_text:
  "CHR '' '' \<notin> set text \<Longrightarrow>
   say_message i (''SAY '' @ text) = ''SAY Player'' @ str_int (int i) @ '': '' @ text"
  by (simp add: say_message_def split_space_word)

lemma handle_say_text:
  "handleCommand broken i (''SAY '' @ text) st = say_command broken i (''SAY '' @ text) st"
  by (simp add: handleCommand_def)

lemma broadcast_loop_registry:
  assumes "registry_ok st" "\<forall>k\<in>set ks. k < MAX_CLIENTS"
  shows "registry_ok (broadcast_loop broken m ks st)"
  using assms
proof (induction ks arbitrary: st)
  case Nil
  then show ?case by simp
next
  case (Cons k ks)
  have k: "k < MAX_CLIENTS" and ks: "\<forall>k\<in>set ks. k < MAX_CLIENTS" using Cons.prems(2) by simp_all
  show ?case
  proof (cases "g_clientSockets st ! k")
    case None
    then show ?thesis using Cons.IH[OF Cons.prems(1) ks] by simp
  next
    case (Some s)
    show ?thesis
    proof (cases "can_send broken st s")
      case True
      have "registry_ok (deliver st s m)" using Cons.prems(1) by (simp add: registry_ok_deliver)
      from Cons.IH[OF this ks] Some True show ?thesis by simp
    next
      case False
      have "registry_ok (drop_socket st s)"
        using drop_socket_registered[OF Cons.prems(1) k Some] registry_ok_drop[OF Cons.prems(1)]
        by simp
      from Cons.IH[OF this ks] Some False show ?thesis by simp
    qed
  qed
qed

text \<open>
  C6, as the claim states it: the line on the wire carries the SAY prefix. From the state
  with two players, \<^verbatim>\<open>SAY hi\<close> of the first sends \<^verbatim>\<open>SAY Player0: hi\<close> to the second, nothing to the
  first, and then the state to both; the line \<^verbatim>\<open>Player0: hi\<close> is sent to nobody.
\<close>

theorem say_line_keeps_prefix:
  "sent (state_of (handleCommand healthy 0 ''SAY hi'' two_players))
     = sent two_players @ [(11, ''SAY Player0: hi''), (10, buildStateString two_players),
                           (11, buildStateString two_players)]
   \<and> (11, ''Player0: hi'') \<notin> set (sent (state_of (handleCommand healthy 0 ''SAY hi'' two_players)))"
  by code_simp

text \<open>
  C6, amended: for a SAY whose text has no space, the line \<^verbatim>\<open>SAY Player<i>: <text>\<close> is sent to
  the socket of every other slot that can be written and to no other socket, the sender's
  least of all; then the state is broadcast to all registered sockets; grid, roster and
  occupant count are as before the command.
\<close>

theorem say_reaches_the_others:
  assumes "valid_game st" and "registry_ok st" and "i < MAX_CLIENTS" and "CHR '' '' \<notin> set text"
  shows "\<exists>st1. handleCommand broken i (''SAY '' @ text) st = Ok (broadcastState broken st1)
           \<and> sent st1 = sent st @ map (\<lambda>s. (s, ''SAY Player'' @ str_int (int i) @ '': '' @ text))
                                     (recipients broken st (other_slots i))
           \<and> (\<forall>k<MAX_CLIENTS. \<forall>s. g_clientSockets st ! k = Some s \<longrightarrow>
                 (s \<in> set (recipients broken st (other_slots i)) \<longleftrightarrow> k \<noteq> i \<and> can_send broken st s))
           \<and> sent (broadcastState broken st1)
                = sent st1 @ map (\<lambda>s. (s, buildStateString st)) (recipients broken st1 [0..<MAX_CLIENTS])
           \<and> grid (broadcastState broken st1) = grid st
           \<and> players (broadcastState broken st1) = players st
           \<and> clientCount (broadcastState broken st1) = clientCount st"
proof -
  define m where "m = ''SAY Player'' @ str_int (int i) @ '': '' @ text"
  define st1 where "st1 = broadcast_loop broken m (other_slots i) st"
  have len: "length (g_clientSockets st) = MAX_CLIENTS" using assms(2) by (rule registry_length)
  have sm: "say_message i (''SAY '' @ text) = m"
    unfolding m_def by (rule say_message_text[OF assms(4)])
  have sl: "say_loop broken i (say_message i (''SAY '' @ text)) [0..<length (g_clientSockets st)] st = st1"
    unfolding sm st1_def len by (simp only: say_loop_as_broadcast other_slots_def)
  obtain a b c where fr: "st1 = st\<lparr>g_clientSockets := a, closed := b, sent := c\<rparr>"
    unfolding st1_def using broadcast_loop_frame[of broken m "other_slots i" st] by blast
  have game: "grid st1 = grid st" "players st1 = players st" "clientCount st1 = clientCount st"
    by (simp_all add: fr)
  have v1: "valid_game st1" using assms(1) by (simp add: valid_game_def game)
  have "say_command broken i (''SAY '' @ text) st = Ok (broadcastState broken st1)"
    unfolding say_command_def sl by (rule refresh_and_broadcast_valid[OF v1])
  then have run: "handleCommand broken i (''SAY '' @ text) st = Ok (broadcastState broken st1)"
    by (simp only: handle_say_text)
  have os: "distinct (other_slots i)" "\<forall>k\<in>set (other_slots i). k < MAX_CLIENTS"
    by (simp_all add: other_slots_def)
  have snt: "sent st1 = sent st @ map (\<lambda>s. (s, m)) (recipients broken st (other_slots i))"
    unfolding st1_def using broadcast_loop_sent[OF assms(2) os] .
  have reg1: "registry_ok st1"
    unfolding st1_def using broadcast_loop_registry[OF assms(2) os(2)] .
  have bs: "buildStateString st1 = buildStateString st"
    by (rule buildStateString_cong) (simp_all add: game)
  have snt2: "sent (broadcastState broken st1)
                = sent st1 @ map (\<lambda>s. (s, buildStateString st)) (recipients broken st1 [0..<MAX_CLIENTS])"
    using broadcastState_sent[OF reg1, of broken] bs by simp
  have who: "\<forall>k<MAX_CLIENTS. \<forall>s. g_clientSockets st ! k = Some s \<longrightarrow>
                 (s \<in> set (recipients broken st (other_slots i)) \<longleftrightarrow> k \<noteq> i \<and> can_send broken st s)"
  proof (intro allI impI)
    fix k s assume k: "k < MAX_CLIENTS" and ks: "g_clientSockets st ! k = Some s"
    show "s \<in> set (recipients broken st (other_slots i)) \<longleftrightarrow> k \<noteq> i \<and> can_send broken st s"
    proof
      assume "s \<in> set (recipients broken st (other_slots i))"
      then obtain k' where k': "k' \<in> set (other_slots i)" "g_clientSockets st ! k' = Some s"
        "can_send broken st s" unfolding in_recipients by blast
      then have "k' < MAX_CLIENTS" "k' \<noteq> i" by (simp_all add: other_slots_def)
      moreover have "k' = k" using registry_unique[OF assms(2) \<open>k' < MAX_CLIENTS\<close> k k'(2) ks] .
      ultimately show "k \<noteq> i \<and> can_send broken st s" using k'(3) by simp
    next
      assume "k \<noteq> i \<and> can_send broken st s"
      then have "k \<in> set (other_slots i)" "can_send broken st s" using k by (simp_all add: other_slots_def)
      with ks show "s \<in> set (recipients broken st (other_slots i))" unfolding in_recipients by blast
    qed
  qed
  have "handleCommand broken i (''SAY '' @ text) st = Ok (broadcastState broken st1)
           \<and> sent st1 = sent st @ map (\<lambda>s. (s, m)) (recipients broken st (other_slots i))
           \<and> (\<forall>k<MAX_CLIENTS. \<forall>s. g_clientSockets st ! k = Some s \<longrightarrow>
                 (s \<in> set (recipients broken st (other_slots i)) \<longleftrightarrow> k \<noteq> i \<and> can_send broken st s))
           \<and> sent (broadcastState broken st1)
                = sent st1 @ map (\<lambda>s. (s, buildStateString st)) (recipients broken st1 [0..<MAX_CLIENTS])
           \<and> grid (broadcastState broken st1) = grid st
           \<and> players (broadcastState broken st1) = players st
           \<and> clientCount (broadcastState broken st1) = clientCount st"
    using run snt who snt2 game by (simp only: broadcastState_game simp_thms)
  then show ?thesis unfolding m_def by (rule exI)
qed

lemma two_players_registry: "registry_ok two_players"
  unfolding registry_ok_def
  by (simp add: two_players_fields MAX_CLIENTS_def numeral_eq_Suc All_less_Suc)

theorem say_reaches_the_others_witness:
  "valid_game two_players \<and> registry_ok two_players
   \<and> completed (handleCommand healthy 0 ''SAY hi'' two_players)
   \<and> players (state_of (handleCommand healthy 0 ''SAY hi'' two_players)) = players two_players
   \<and> recipients healthy two_players (other_slots 0) = [11]"
proof -
  have i: "(0::nat) < MAX_CLIENTS" by (simp add: MAX_CLIENTS_def)
  have t: "CHR '' '' \<notin> set ''hi''" by simp
  from say_reaches_the_others[OF two_players_valid two_players_registry i t, of healthy]
  obtain st1 where "handleCommand healthy 0 (''SAY '' @ ''hi'') two_players = Ok (broadcastState healthy st1)"
    and "players (broadcastState healthy st1) = players two_players" by blast
  then have "completed (handleCommand healthy 0 ''SAY hi'' two_players)"
    and "players (state_of (handleCommand healthy 0 ''SAY hi'' two_players)) = players two_players"
    by simp_all
  moreover have "recipients healthy two_players (other_slots 0) = [11]" by code_simp
  ultimately show ?thesis using two_players_valid two_players_registry by blast
qed

subsection \<open>ATTACK when the victims are registered\<close>

lemma registry_ok_cong:
  "g_clientSockets a = g_clientSockets b \<Longrightarrow> registry_ok a = registry_ok b"
  by (simp add: registry_ok_def)

lemma registry_ok_free:
  assumes "registry_ok st" "g_clientSockets st' = (g_clientSockets st)[k := None]"
  shows "registry_ok st'"
proof -
  have "registry_ok (st\<lparr>closed := closed st, g_clientSockets := (g_clientSockets st)[k := None]\<rparr>)"
    using assms(1) by (rule registry_ok_drop)
  moreover have "g_clientSockets st' = g_clientSockets (st\<lparr>closed := closed st, g_clientSockets := (g_clientSockets st)[k := None]\<rparr>)"
    using assms(2) by simp
  ultimately show ?thesis using registry_ok_cong by blast
qed

text \<open>One round of the loop of ATTACK, for the slot \<open>j\<close>.\<close>

lemma attack_round:
  assumes jl: "j < length (players st)" and jr: "j < length (g_clientSockets st)"
    and sk: "slain ogx ogy (players st ! j) \<longrightarrow> g_clientSockets st ! j = Some s"
  shows "attack_loop broken p ogx ogy (j # js) st =
           attack_loop broken p ogx ogy js
             (if slain ogx ogy (players st ! j)
              then st\<lparr>sent := sent st @ (if can_send broken st s then [(s, death_notice p)] else []),
                      players := (players st)[j := after_attack ogx ogy (players st ! j)],
                      closed := s # closed st,
                      g_clientSockets := (g_clientSockets st)[j := None],
                      clientCount := clientCount st - 1\<rparr>
              else st\<lparr>players := (players st)[j := after_attack ogx ogy (players st ! j)]\<rparr>)"
proof -
  let ?q = "players st ! j"
  show ?thesis
  proof (cases "active ?q \<and> 0 < hp ?q")
    case False
    then have "\<not> struck ogx ogy ?q" by (auto simp: struck_def)
    then have "after_attack ogx ogy ?q = ?q" "\<not> slain ogx ogy ?q"
      by (simp_all add: after_attack_def slain_def)
    with False show ?thesis by (auto simp: Let_def)
  next
    case alive: True
    show ?thesis
    proof (cases "adjacent ogx ogy ?q")
      case False
      then have "\<not> struck ogx ogy ?q" by (simp add: struck_def)
      then have "after_attack ogx ogy ?q = ?q" "\<not> slain ogx ogy ?q"
        by (simp_all add: after_attack_def slain_def)
      with alive False show ?thesis by (simp add: Let_def)
    next
      case adj: True
      then have st: "struck ogx ogy ?q" using alive by (simp add: struck_def)
      show ?thesis
      proof (cases "hp ?q \<le> 10")
        case True
        then have sl: "slain ogx ogy ?q" using st by (simp add: slain_def)
        with sk have so: "g_clientSockets st ! j = Some s" by simp
        have aa: "after_attack ogx ogy ?q = ?q\<lparr>hp := hp ?q - 10, active := False\<rparr>"
          using st True by (simp add: after_attack_def)
        show ?thesis
          using alive adj True sl so aa jl jr
          by (simp add: Let_def eliminate_def deliver_def can_send_def)
      next
        case False
        then have nsl: "\<not> slain ogx ogy ?q" by (simp add: slain_def)
        have "after_attack ogx ogy ?q = ?q\<lparr>hp := hp ?q - 10, active := True\<rparr>"
          using st False by (simp add: after_attack_def)
        also have "\<dots> = ?q\<lparr>hp := hp ?q - 10\<rparr>" using alive by simp
        finally have aa: "after_attack ogx ogy ?q = ?q\<lparr>hp := hp ?q - 10\<rparr>" .
        show ?thesis
          using alive adj False nsl aa jl by (simp add: Let_def)
      qed
    qed
  qed
qed

lemma attack_loop_effect:
  assumes "registry_ok st" and "length (players st) = MAX_CLIENTS"
    and "distinct js" and "\<forall>j\<in>set js. j < MAX_CLIENTS"
    and "\<forall>j\<in>set js. slain ogx ogy (players st ! j) \<longrightarrow> g_clientSockets st ! j \<noteq> None"
  shows "\<exists>st'. attack_loop broken p ogx ogy js st = Ok st'
     \<and> grid st' = grid st
     \<and> length (players st') = MAX_CLIENTS
     \<and> (\<forall>j. players st' ! j = (if j \<in> set js then after_attack ogx ogy (players st ! j) else players st ! j))
     \<and> (\<forall>j. g_clientSockets st' ! j =
              (if j \<in> set js \<and> slain ogx ogy (players st ! j) then None else g_clientSockets st ! j))
     \<and> registry_ok st'
     \<and> clientCount st' = clientCount st - int (length (filter (\<lambda>j. slain ogx ogy (players st ! j)) js))
     \<and> sent st' = sent st @ map (\<lambda>s. (s, death_notice p))
                              (recipients broken st (filter (\<lambda>j. slain ogx ogy (players st ! j)) js))
     \<and> (\<forall>j\<in>set js. \<forall>s. slain ogx ogy (players st ! j) \<and> g_clientSockets st ! j = Some s
            \<longrightarrow> s \<in> set (closed st'))
     \<and> set (closed st) \<subseteq> set (closed st')"
  using assms
proof (induction js arbitrary: st)
  case Nil
  then show ?case by simp
next
  case (Cons j js)
  let ?q = "players st ! j"
  let ?sl = "slain ogx ogy ?q"
  have j: "j < MAX_CLIENTS" and jn: "j \<notin> set js" and dj: "distinct js"
    and jb: "\<forall>k\<in>set js. k < MAX_CLIENTS"
    using Cons.prems(3,4) by simp_all
  have rl: "length (g_clientSockets st) = MAX_CLIENTS" using Cons.prems(1) by (rule registry_length)
  obtain s where s: "?sl \<longrightarrow> g_clientSockets st ! j = Some s"
    using Cons.prems(5) by (cases "g_clientSockets st ! j") auto
  define st1 where "st1 =
     (if ?sl
      then st\<lparr>sent := sent st @ (if can_send broken st s then [(s, death_notice p)] else []),
              players := (players st)[j := after_attack ogx ogy ?q],
              closed := s # closed st,
              g_clientSockets := (g_clientSockets st)[j := None],
              clientCount := clientCount st - 1\<rparr>
      else st\<lparr>players := (players st)[j := after_attack ogx ogy ?q]\<rparr>)"
  have step: "attack_loop broken p ogx ogy (j # js) st = attack_loop broken p ogx ogy js st1"
    unfolding st1_def
    by (rule attack_round) (use j Cons.prems(2) rl s in simp_all)
  have F1: "grid st1 = grid st" by (simp add: st1_def)
  have F2: "players st1 = (players st)[j := after_attack ogx ogy ?q]" by (simp add: st1_def)
  have F3: "g_clientSockets st1 = (if ?sl then (g_clientSockets st)[j := None] else g_clientSockets st)"
    by (simp add: st1_def)
  have F4: "clientCount st1 = clientCount st - (if ?sl then 1 else 0)" by (simp add: st1_def)
  have F5: "sent st1 = sent st @ (if ?sl \<and> can_send broken st s then [(s, death_notice p)] else [])"
    by (simp add: st1_def)
  have F6: "closed st1 = (if ?sl then s # closed st else closed st)" by (simp add: st1_def)
  have pk: "\<And>k. k \<noteq> j \<Longrightarrow> players st1 ! k = players st ! k" by (simp add: F2)
  have pj: "players st1 ! j = after_attack ogx ogy ?q" using j Cons.prems(2) by (simp add: F2)
  have sk': "\<And>k. k \<noteq> j \<Longrightarrow> g_clientSockets st1 ! k = g_clientSockets st ! k" by (simp add: F3)
  have sj: "g_clientSockets st1 ! j = (if ?sl then None else g_clientSockets st ! j)"
    using j rl by (simp add: F3)
  have reg1: "registry_ok st1"
  proof (cases ?sl)
    case True
    then have "g_clientSockets st1 = (g_clientSockets st)[j := None]" by (simp add: F3)
    with Cons.prems(1) show ?thesis by (rule registry_ok_free)
  next
    case False
    then have "g_clientSockets st1 = g_clientSockets st" by (simp add: F3)
    with Cons.prems(1) show ?thesis using registry_ok_cong by blast
  qed
  have len1: "length (players st1) = MAX_CLIENTS" using Cons.prems(2) by (simp add: F2)
  have same: "\<And>k. k \<in> set js \<Longrightarrow> slain ogx ogy (players st1 ! k) = slain ogx ogy (players st ! k)"
  proof -
    fix k assume "k \<in> set js"
    then have "k \<noteq> j" using jn by blast
    then have "players st1 ! k = players st ! k" by (rule pk)
    then show "slain ogx ogy (players st1 ! k) = slain ogx ogy (players st ! k)" by simp
  qed
  have sk1: "\<forall>k\<in>set js. slain ogx ogy (players st1 ! k) \<longrightarrow> g_clientSockets st1 ! k \<noteq> None"
  proof (intro ballI impI)
    fix k assume k: "k \<in> set js" and "slain ogx ogy (players st1 ! k)"
    then have "slain ogx ogy (players st ! k)" using same by simp
    with Cons.prems(5) k have "g_clientSockets st ! k \<noteq> None" by simp
    moreover have "k \<noteq> j" using k jn by auto
    ultimately show "g_clientSockets st1 ! k \<noteq> None" using sk' by simp
  qed
  from Cons.IH[OF reg1 len1 dj jb sk1] obtain st' where st':
    "attack_loop broken p ogx ogy js st1 = Ok st'"
    "grid st' = grid st1"
    "length (players st') = MAX_CLIENTS"
    "\<forall>k. players st' ! k = (if k \<in> set js then after_attack ogx ogy (players st1 ! k) else players st1 ! k)"
    "\<forall>k. g_clientSockets st' ! k =
          (if k \<in> set js \<and> slain ogx ogy (players st1 ! k) then None else g_clientSockets st1 ! k)"
    "registry_ok st'"
    "clientCount st' = clientCount st1 - int (length (filter (\<lambda>k. slain ogx ogy (players st1 ! k)) js))"
    "sent st' = sent st1 @ map (\<lambda>s. (s, death_notice p))
                  (recipients broken st1 (filter (\<lambda>k. slain ogx ogy (players st1 ! k)) js))"
    "\<forall>k\<in>set js. \<forall>t. slain ogx ogy (players st1 ! k) \<and> g_clientSockets st1 ! k = Some t
            \<longrightarrow> t \<in> set (closed st')"
    "set (closed st1) \<subseteq> set (closed st')" by blast
  have fl: "filter (\<lambda>k. slain ogx ogy (players st1 ! k)) js = filter (\<lambda>k. slain ogx ogy (players st ! k)) js"
    by (rule filter_cong) (simp_all add: same)
  have rc: "recipients broken st1 (filter (\<lambda>k. slain ogx ogy (players st ! k)) js)
          = recipients broken st (filter (\<lambda>k. slain ogx ogy (players st ! k)) js)"
  proof (rule recipients_agree, intro ballI conjI allI impI)
    fix k assume "k \<in> set (filter (\<lambda>k. slain ogx ogy (players st ! k)) js)"
    then have k: "k \<in> set js" by simp
    then have kj: "k \<noteq> j" and kb: "k < MAX_CLIENTS" using jn jb by auto
    show "g_clientSockets st1 ! k = g_clientSockets st ! k" using kj by (rule sk')
    fix t assume t: "g_clientSockets st ! k = Some t"
    show "can_send broken st1 t = can_send broken st t"
    proof (cases ?sl)
      case True
      with s have "g_clientSockets st ! j = Some s" by simp
      then have "t \<noteq> s" using registry_unique[OF Cons.prems(1) kb j t] kj by blast
      then show ?thesis using True by (simp add: can_send_def F6)
    next
      case False
      then show ?thesis by (simp add: can_send_def F6)
    qed
  qed
  have C1: "attack_loop broken p ogx ogy (j # js) st = Ok st'" using step st'(1) by simp
  have C2: "grid st' = grid st" using st'(2) F1 by simp
  have C4: "\<forall>k. players st' ! k =
      (if k \<in> set (j # js) then after_attack ogx ogy (players st ! k) else players st ! k)"
  proof
    fix k show "players st' ! k =
      (if k \<in> set (j # js) then after_attack ogx ogy (players st ! k) else players st ! k)"
    proof (cases "k = j")
      case True
      then show ?thesis using st'(4) jn pj by simp
    next
      case False
      then show ?thesis using st'(4) pk by simp
    qed
  qed
  have C5: "\<forall>k. g_clientSockets st' ! k =
      (if k \<in> set (j # js) \<and> slain ogx ogy (players st ! k) then None else g_clientSockets st ! k)"
  proof
    fix k show "g_clientSockets st' ! k =
      (if k \<in> set (j # js) \<and> slain ogx ogy (players st ! k) then None else g_clientSockets st ! k)"
    proof (cases "k = j")
      case True
      then show ?thesis using st'(5) jn sj by simp
    next
      case False
      then show ?thesis using st'(5) sk' same by auto
    qed
  qed
  have C7: "clientCount st' = clientCount st
              - int (length (filter (\<lambda>k. slain ogx ogy (players st ! k)) (j # js)))"
    using st'(7) fl F4 by simp
  have C8: "sent st' = sent st @ map (\<lambda>s. (s, death_notice p))
                (recipients broken st (filter (\<lambda>k. slain ogx ogy (players st ! k)) (j # js)))"
  proof (cases ?sl)
    case True
    with s have so: "g_clientSockets st ! j = Some s" by simp
    show ?thesis using st'(8) fl rc F5 True so by simp
  next
    case False
    then show ?thesis using st'(8) fl rc F5 by simp
  qed
  have C10: "set (closed st) \<subseteq> set (closed st')" using st'(10) F6 by auto
  have C9: "\<forall>k\<in>set (j # js). \<forall>t. slain ogx ogy (players st ! k) \<and> g_clientSockets st ! k = Some t
            \<longrightarrow> t \<in> set (closed st')"
  proof (intro ballI allI impI)
    fix k t assume k: "k \<in> set (j # js)"
      and h: "slain ogx ogy (players st ! k) \<and> g_clientSockets st ! k = Some t"
    show "t \<in> set (closed st')"
    proof (cases "k = j")
      case True
      with h s have "t = s" "?sl" by auto
      then have "t \<in> set (closed st1)" by (simp add: F6)
      with st'(10) show ?thesis by blast
    next
      case False
      with k have kj: "k \<in> set js" by simp
      with h False have "slain ogx ogy (players st1 ! k) \<and> g_clientSockets st1 ! k = Some t"
        using same sk' by simp
      with st'(9) kj show ?thesis by blast
    qed
  qed
  show ?case using C1 C2 st'(3) C4 C5 st'(6) C7 C8 C9 C10 by blast
qed

lemma not_adjacent_self: "\<not> adjacent (x q) (y q) q"
  by (simp add: adjacent_def)

lemma after_attack_self: "after_attack (x q) (y q) q = q"
  by (simp add: after_attack_def struck_def not_adjacent_self)

lemma after_attack_fields:
  "x (after_attack ogx ogy q) = x q" "y (after_attack ogx ogy q) = y q"
  "active (after_attack ogx ogy q) \<Longrightarrow> active q"
  by (auto simp: after_attack_def struck_def split: if_splits)

lemma handle_attack_text: "handleCommand broken p ''ATTACK'' st = attack_command broken p st"
  by (simp add: handleCommand_def)

text \<open>
  ATTACK, issued by an active player in a valid state in which every active player has
  its socket registered, takes exactly 10 hp from every active player on one of the four
  neighbouring cells and leaves every other roster entry, the attacker's included, as it
  was. Every player left without hp is eliminated before the broadcast: its active flag is
  cleared, its registry entry freed and its socket closed, clientCount goes down by one for
  each, and the line \<^verbatim>\<open>You were killed by Player\<close> followed by the attacker's marker is sent to
  the sockets of the victims and to no other socket, before the state is broadcast, whose
  grid shows markers of active players only.
\<close>

lemma attack_with_registered_victims:
  assumes "valid_game st" and "registry_ok st" and "p < MAX_CLIENTS" and "active (players st ! p)"
    and "\<forall>j<MAX_CLIENTS. active (players st ! j) \<longrightarrow> g_clientSockets st ! j \<noteq> None"
  shows "\<exists>st1 g. handleCommand broken p ''ATTACK'' st = Ok (broadcastState broken (st1\<lparr>grid := g\<rparr>))
     \<and> (\<forall>j<MAX_CLIENTS. players st1 ! j
            = after_attack (x (players st ! p)) (y (players st ! p)) (players st ! j))
     \<and> players st1 ! p = players st ! p
     \<and> (\<forall>j<MAX_CLIENTS. g_clientSockets st1 ! j
            = (if j \<in> set (victims st p) then None else g_clientSockets st ! j))
     \<and> (\<forall>j\<in>set (victims st p). \<forall>s. g_clientSockets st ! j = Some s \<longrightarrow> s \<in> set (closed st1))
     \<and> clientCount st1 = clientCount st - int (length (victims st p))
     \<and> sent st1 = sent st @ map (\<lambda>s. (s, death_notice p)) (recipients broken st (victims st p))
     \<and> (\<forall>r<5. \<forall>c<5. \<forall>j<MAX_CLIENTS. g ! r ! c = marker j \<longrightarrow> active (players st1 ! j))"
proof -
  define ogx where "ogx = x (players st ! p)"
  define ogy where "ogy = y (players st ! p)"
  have len: "length (players st) = MAX_CLIENTS" and sh: "grid_shape (grid st)"
    using assms(1) by (simp_all add: valid_game_def)
  have sk: "\<forall>j\<in>set [0..<MAX_CLIENTS]. slain ogx ogy (players st ! j) \<longrightarrow> g_clientSockets st ! j \<noteq> None"
    using assms(5) by (auto simp: slain_def struck_def)
  have vs: "victims st p = filter (\<lambda>j. slain ogx ogy (players st ! j)) [0..<MAX_CLIENTS]"
    by (simp add: victims_def ogx_def ogy_def)
  from attack_loop_effect[OF assms(2) len _ _ sk, of broken p]
  obtain st1 where st1:
    "attack_loop broken p ogx ogy [0..<MAX_CLIENTS] st = Ok st1"
    "grid st1 = grid st"
    "length (players st1) = MAX_CLIENTS"
    "\<forall>j. players st1 ! j = (if j \<in> set [0..<MAX_CLIENTS] then after_attack ogx ogy (players st ! j) else players st ! j)"
    "\<forall>j. g_clientSockets st1 ! j =
          (if j \<in> set [0..<MAX_CLIENTS] \<and> slain ogx ogy (players st ! j) then None else g_clientSockets st ! j)"
    "clientCount st1 = clientCount st - int (length (victims st p))"
    "sent st1 = sent st @ map (\<lambda>s. (s, death_notice p)) (recipients broken st (victims st p))"
    "\<forall>j\<in>set [0..<MAX_CLIENTS]. \<forall>s. slain ogx ogy (players st ! j) \<and> g_clientSockets st ! j = Some s
            \<longrightarrow> s \<in> set (closed st1)"
    unfolding vs by auto
  have P: "\<forall>j<MAX_CLIENTS. players st1 ! j = after_attack ogx ogy (players st ! j)"
    using st1(4) by simp
  have Pp: "players st1 ! p = players st ! p"
    using P assms(3) after_attack_self[of "players st ! p"] by (simp add: ogx_def ogy_def)
  have S: "\<forall>j<MAX_CLIENTS. g_clientSockets st1 ! j
            = (if j \<in> set (victims st p) then None else g_clientSockets st ! j)"
    using st1(5) by (simp add: vs)
  have C: "\<forall>j\<in>set (victims st p). \<forall>s. g_clientSockets st ! j = Some s \<longrightarrow> s \<in> set (closed st1)"
  proof (intro ballI allI impI)
    fix j s assume j: "j \<in> set (victims st p)" and s: "g_clientSockets st ! j = Some s"
    from j have "j \<in> set [0..<MAX_CLIENTS]" "slain ogx ogy (players st ! j)" by (simp_all add: vs)
    with st1(8) s show "s \<in> set (closed st1)" by blast
  qed
  have sh1: "grid_shape (grid st1)" using sh st1(2) by simp
  have ig1: "\<forall>j<length (players st1). active (players st1 ! j) \<and> hp (players st1 ! j) > 0
               \<longrightarrow> in_grid (players st1 ! j)"
  proof (intro allI impI)
    fix j assume j: "j < length (players st1)" and al: "active (players st1 ! j) \<and> hp (players st1 ! j) > 0"
    then have jm: "j < MAX_CLIENTS" using st1(3) by simp
    then have e: "players st1 ! j = after_attack ogx ogy (players st ! j)" using P by simp
    from al have "active (after_attack ogx ogy (players st ! j))" using e by simp
    then have "active (players st ! j)" by (rule after_attack_fields(3))
    with assms(1) jm have "in_grid (players st ! j)" by (simp add: valid_game_def)
    then show "in_grid (players st1 ! j)" using e by (simp add: in_grid_def after_attack_fields)
  qed
  from refresh_cells[OF sh1 ig1] obtain g where g:
    "refreshPlayerPositions st1 = Ok (st1\<lparr>grid := g\<rparr>)"
    "\<forall>r<5. \<forall>c<5. g ! r ! c =
        top_marker (players st1) [0..<length (players st1)] r c (clear_cell (grid st1 ! r ! c))"
    by blast
  have run: "handleCommand broken p ''ATTACK'' st = Ok (broadcastState broken (st1\<lparr>grid := g\<rparr>))"
    using st1(1) g(1) len
    by (simp add: handle_attack_text attack_command_def refresh_and_broadcast_def ogx_def ogy_def Let_def)
  have G: "\<forall>r<5. \<forall>c<5. \<forall>j<MAX_CLIENTS. g ! r ! c = marker j \<longrightarrow> active (players st1 ! j)"
  proof (intro allI impI)
    fix r c j :: nat assume rc: "r < 5" "c < 5" and j: "j < MAX_CLIENTS" and m: "g ! r ! c = marker j"
    let ?ch = "clear_cell (grid st1 ! r ! c)"
    have j4: "j < 4" using j by (simp add: MAX_CLIENTS_def)
    have e: "g ! r ! c = top_marker (players st1) [0..<length (players st1)] r c ?ch"
      using g(2) rc by simp
    from top_marker_either[of "players st1" "[0..<length (players st1)]" r c ?ch]
    show "active (players st1 ! j)"
    proof
      assume "top_marker (players st1) [0..<length (players st1)] r c ?ch = ?ch"
      with e m clear_cell_not_marker[OF j4, of "grid st1 ! r ! c"] show ?thesis by simp
    next
      assume "\<exists>k\<in>set [0..<length (players st1)]. stands_at (players st1 ! k) r c \<and>
                top_marker (players st1) [0..<length (players st1)] r c ?ch = marker k"
      then obtain k where k: "k < length (players st1)" "stands_at (players st1 ! k) r c"
        "top_marker (players st1) [0..<length (players st1)] r c ?ch = marker k" by auto
      with e m have "marker k = marker j" by simp
      moreover have "k < 4" using k(1) st1(3) by (simp add: MAX_CLIENTS_def)
      ultimately have "k = j" using marker_inj[of k j] j4 by blast
      with k(2) show ?thesis by (simp add: stands_at_def)
    qed
  qed
  have "handleCommand broken p ''ATTACK'' st = Ok (broadcastState broken (st1\<lparr>grid := g\<rparr>))
     \<and> (\<forall>j<MAX_CLIENTS. players st1 ! j = after_attack ogx ogy (players st ! j))
     \<and> players st1 ! p = players st ! p
     \<and> (\<forall>j<MAX_CLIENTS. g_clientSockets st1 ! j
            = (if j \<in> set (victims st p) then None else g_clientSockets st ! j))
     \<and> (\<forall>j\<in>set (victims st p). \<forall>s. g_clientSockets st ! j = Some s \<longrightarrow> s \<in> set (closed st1))
     \<and> clientCount st1 = clientCount st - int (length (victims st p))
     \<and> sent st1 = sent st @ map (\<lambda>s. (s, death_notice p)) (recipients broken st (victims st p))
     \<and> (\<forall>r<5. \<forall>c<5. \<forall>j<MAX_CLIENTS. g ! r ! c = marker j \<longrightarrow> active (players st1 ! j))"
    using run P Pp S C st1(6,7) G by blast
  then show ?thesis unfolding ogx_def ogy_def by blast
qed

subsection \<open>Claim on MOVE and JUMP\<close>

lemma moved_frame:
  "g_clientSockets (moved st i nx ny) = g_clientSockets st"
  "closed (moved st i nx ny) = closed st"
  "sent (moved st i nx ny) = sent st"
  by (simp_all add: moved_def Let_def)

text \<open>
  C3: a MOVE or JUMP with a recognised direction, issued by an active player in a valid
  state, is applied exactly when the destination is inside the grid, is not an obstacle and
  holds no other active player. When applied, the state is \<open>moved\<close>: source cell cleared,
  destination cell set to the mover's marker, coordinates updated, 5 hp granted when the
  destination held a pickup. Otherwise the state is unchanged. In both cases the state is
  then broadcast: its text is sent to every registered socket that can be written, the
  broadcast leaves grid, roster and occupant count as they are, and the state is valid again.
\<close>

theorem move_applied_iff_unobstructed:
  assumes "valid_game st" and "registry_ok st" and "i < MAX_CLIENTS" and "active (players st ! i)"
    and "(kw, n) = (''MOVE'', 1) \<or> (kw, n) = (''JUMP'', 2)"
    and "destination d n (players st ! i) = (nx, ny)"
  shows "(let st' = (if unobstructed st i nx ny then moved st i nx ny else st)
          in handleCommand broken i (kw @ '' '' @ direction_word d) st
               = Ok (broadcastState broken st')
             \<and> grid (broadcastState broken st') = grid st'
             \<and> players (broadcastState broken st') = players st'
             \<and> clientCount (broadcastState broken st') = clientCount st'
             \<and> sent (broadcastState broken st')
                  = sent st @ map (\<lambda>s. (s, buildStateString st')) (recipients broken st [0..<MAX_CLIENTS])
             \<and> valid_game (broadcastState broken st'))"
proof -
  define st' where "st' = (if unobstructed st i nx ny then moved st i nx ny else st)"
  have n: "n = 1 \<or> n = 2" using assms(5) by auto
  have h: "handleCommand broken i (kw @ '' '' @ direction_word d) st = move_command broken i d n st"
    using assms(5) handle_move_text[of broken i d st] by auto
  have run: "handleCommand broken i (kw @ '' '' @ direction_word d) st = Ok (broadcastState broken st')"
    unfolding h st'_def by (rule move_command_valid(1)[OF assms(1,3,4) n assms(6)])
  have v': "valid_game st'"
    unfolding st'_def by (rule move_command_valid(2)[OF assms(1,3,4) n assms(6)])
  have fr: "g_clientSockets st' = g_clientSockets st" "closed st' = closed st" "sent st' = sent st"
    by (simp_all add: st'_def moved_frame)
  have reg: "registry_ok st'" using assms(2) registry_ok_cong[OF fr(1)] by simp
  have rec: "recipients broken st' [0..<MAX_CLIENTS] = recipients broken st [0..<MAX_CLIENTS]"
    by (rule recipients_agree) (simp add: fr can_send_def)
  have snt: "sent (broadcastState broken st')
               = sent st @ map (\<lambda>s. (s, buildStateString st')) (recipients broken st [0..<MAX_CLIENTS])"
    using broadcastState_sent[OF reg, of broken] rec fr(3) by simp
  have "handleCommand broken i (kw @ '' '' @ direction_word d) st = Ok (broadcastState broken st')
        \<and> grid (broadcastState broken st') = grid st'
        \<and> players (broadcastState broken st') = players st'
        \<and> clientCount (broadcastState broken st') = clientCount st'
        \<and> sent (broadcastState broken st')
             = sent st @ map (\<lambda>s. (s, buildStateString st')) (recipients broken st [0..<MAX_CLIENTS])
        \<and> valid_game (broadcastState broken st')"
    using run snt v' by (simp add: broadcastState_game broadcastState_valid)
  then show ?thesis unfolding st'_def Let_def .
qed

theorem move_applied_iff_unobstructed_witness:
  "valid_game two_players \<and> registry_ok two_players \<and> (1::nat) < MAX_CLIENTS
   \<and> active (players two_players ! 1)
   \<and> destination DOWN 1 (players two_players ! 1) = (2, 0)
   \<and> unobstructed two_players 1 2 0
   \<and> handleCommand healthy 1 ''MOVE DOWN'' two_players
       = Ok (broadcastState healthy (moved two_players 1 2 0))
   \<and> grid (moved two_players 1 2 0) = [''A...+'', ''...+.'', ''B.#+.'', ''.+...'', ''.....'']
   \<and> players (moved two_players 1 2 0) ! 1 = \<lparr>x = 2, y = 0, hp = 100, active = True\<rparr>
   \<and> sent (broadcastState healthy (moved two_players 1 2 0))
       = sent two_players @
         [(10, ''STATE'' @ [nl] @ ''A...+'' @ [nl] @ ''...+.'' @ [nl] @ ''B.#+.'' @ [nl]
                 @ ''.+...'' @ [nl] @ ''.....'' @ [nl] @ ''Players:'' @ [nl]
                 @ ''  Player 0: HP=100 Pos = (0,0)'' @ [nl] @ ''  Player 1: HP=100 Pos = (2,0)'' @ [nl]),
          (11, ''STATE'' @ [nl] @ ''A...+'' @ [nl] @ ''...+.'' @ [nl] @ ''B.#+.'' @ [nl]
                 @ ''.+...'' @ [nl] @ ''.....'' @ [nl] @ ''Players:'' @ [nl]
                 @ ''  Player 0: HP=100 Pos = (0,0)'' @ [nl] @ ''  Player 1: HP=100 Pos = (2,0)'' @ [nl])]
   \<and> destination UP 1 (players two_players ! 1) = (0, 0)
   \<and> \<not> unobstructed two_players 1 0 0
   \<and> handleCommand healthy 1 ''MOVE UP'' two_players = Ok (broadcastState healthy two_players)
   \<and> sent (broadcastState healthy two_players)
       = sent two_players @
         [(10, ''STATE'' @ [nl] @ ''A...+'' @ [nl] @ ''B..+.'' @ [nl] @ ''..#+.'' @ [nl]
                 @ ''.+...'' @ [nl] @ ''.....'' @ [nl] @ ''Players:'' @ [nl]
                 @ ''  Player 0: HP=100 Pos = (0,0)'' @ [nl] @ ''  Player 1: HP=100 Pos = (1,0)'' @ [nl]),
          (11, ''STATE'' @ [nl] @ ''A...+'' @ [nl] @ ''B..+.'' @ [nl] @ ''..#+.'' @ [nl]
                 @ ''.+...'' @ [nl] @ ''.....'' @ [nl] @ ''Players:'' @ [nl]
                 @ ''  Player 0: HP=100 Pos = (0,0)'' @ [nl] @ ''  Player 1: HP=100 Pos = (1,0)'' @ [nl])]"
proof -
  have a: "(1::nat) < MAX_CLIENTS" by (simp add: MAX_CLIENTS_def)
  have b: "active (players two_players ! 1)" by (simp add: two_players_fields)
  have c: "(''MOVE'', 1::int) = (''MOVE'', 1) \<or> (''MOVE'', 1::int) = (''JUMP'', 2)" by simp
  have d: "destination DOWN 1 (players two_players ! 1) = (2, 0)"
    by (simp add: destination_def two_players_fields)
  have e: "destination UP 1 (players two_players ! 1) = (0, 0)"
    by (simp add: destination_def two_players_fields)
  have u: "unobstructed two_players 1 2 0"
    by (simp add: unobstructed_def two_players_fields MAX_CLIENTS_def GRID_ROWS_def GRID_COLS_def
        numeral_eq_Suc Ex_less_Suc)
  have nu: "\<not> unobstructed two_players 1 0 0"
    by (simp add: unobstructed_def two_players_fields MAX_CLIENTS_def GRID_ROWS_def GRID_COLS_def
        numeral_eq_Suc Ex_less_Suc)
  have g: "grid (moved two_players 1 2 0) = [''A...+'', ''...+.'', ''B.#+.'', ''.+...'', ''.....'']"
    by (simp add: moved_def two_players_fields grid_put_def marker_simps Let_def)
  have p: "players (moved two_players 1 2 0) ! 1 = \<lparr>x = 2, y = 0, hp = 100, active = True\<rparr>"
    by (simp add: moved_def two_players_fields Let_def)
  have r: "recipients healthy two_players [0..<MAX_CLIENTS] = [10, 11]" by code_simp
  have t1: "buildStateString (moved two_players 1 2 0)
      = ''STATE'' @ [nl] @ ''A...+'' @ [nl] @ ''...+.'' @ [nl] @ ''B.#+.'' @ [nl]
                 @ ''.+...'' @ [nl] @ ''.....'' @ [nl] @ ''Players:'' @ [nl]
                 @ ''  Player 0: HP=100 Pos = (0,0)'' @ [nl] @ ''  Player 1: HP=100 Pos = (2,0)'' @ [nl]"
    by code_simp
  have t2: "buildStateString two_players
      = ''STATE'' @ [nl] @ ''A...+'' @ [nl] @ ''B..+.'' @ [nl] @ ''..#+.'' @ [nl]
                 @ ''.+...'' @ [nl] @ ''.....'' @ [nl] @ ''Players:'' @ [nl]
                 @ ''  Player 0: HP=100 Pos = (0,0)'' @ [nl] @ ''  Player 1: HP=100 Pos = (1,0)'' @ [nl]"
    by code_simp
  note down = move_applied_iff_unobstructed[OF two_players_valid two_players_registry a b c d, of healthy]
  note up = move_applied_iff_unobstructed[OF two_players_valid two_players_registry a b c e, of healthy]
  have s1: "sent (broadcastState healthy (moved two_players 1 2 0))
       = sent two_players @ map (\<lambda>s. (s, buildStateString (moved two_players 1 2 0))) [10, 11]"
    using down u r by (simp add: Let_def)
  have s2: "sent (broadcastState healthy two_players)
       = sent two_players @ map (\<lambda>s. (s, buildStateString two_players)) [10, 11]"
    using up nu r by (simp add: Let_def)
  have h1: "handleCommand healthy 1 ''MOVE DOWN'' two_players
       = Ok (broadcastState healthy (moved two_players 1 2 0))"
    using down u by (simp add: Let_def direction_word_def)
  have h2: "handleCommand healthy 1 ''MOVE UP'' two_players = Ok (broadcastState healthy two_players)"
    using up nu by (simp add: Let_def direction_word_def)
  show ?thesis
    unfolding s1 s2 t1 t2
    using two_players_valid two_players_registry a b d e u nu g p h1 h2 by simp
qed

subsection \<open>Claims on ATTACK and on moves after a failed elimination\<close>

lemma snapshot_eq:
  "snapshot st = (g, ps, n, reg, cl) \<Longrightarrow>
     st = \<lparr>grid = g, players = ps, clientCount = n, g_clientSockets = reg, closed = cl, sent = sent st\<rparr>"
  by (cases st) (simp add: snapshot_def)

lemma worn_down_snapshot:
  "snapshot worn_down =
     ([''A...+'', ''B..+.'', ''C.#+.'', ''.+...'', ''.....''],
      [\<lparr>x = 0, y = 0, hp = 100, active = True\<rparr>, \<lparr>x = 1, y = 0, hp = 10, active = True\<rparr>,
       \<lparr>x = 2, y = 0, hp = 100, active = True\<rparr>, \<lparr>x = - 1, y = - 1, hp = 100, active = False\<rparr>],
      3, [Some 10, None, Some 12, None], [11])"
  by code_simp

lemma attack_without_socket:
  "handleCommand broken 0 ''ATTACK''
     \<lparr>grid = [''A...+'', ''B..+.'', ''C.#+.'', ''.+...'', ''.....''],
      players = [\<lparr>x = 0, y = 0, hp = 100, active = True\<rparr>, \<lparr>x = 1, y = 0, hp = 10, active = True\<rparr>,
                 \<lparr>x = 2, y = 0, hp = 100, active = True\<rparr>, \<lparr>x = - 1, y = - 1, hp = 100, active = False\<rparr>],
      clientCount = 3, g_clientSockets = [Some 10, None, Some 12, None], closed = [11], sent = S\<rparr>
   = Raised AttributeError
     \<lparr>grid = [''A...+'', ''B..+.'', ''C.#+.'', ''.+...'', ''.....''],
      players = [\<lparr>x = 0, y = 0, hp = 100, active = True\<rparr>, \<lparr>x = 1, y = 0, hp = 0, active = True\<rparr>,
                 \<lparr>x = 2, y = 0, hp = 100, active = True\<rparr>, \<lparr>x = - 1, y = - 1, hp = 100, active = False\<rparr>],
      clientCount = 3, g_clientSockets = [Some 10, None, Some 12, None], closed = [11], sent = S\<rparr>"
  by code_simp

lemma move_up_blocked:
  "completed (handleCommand healthy 2 ''MOVE UP''
     \<lparr>grid = [''A...+'', ''B..+.'', ''C.#+.'', ''.+...'', ''.....''],
      players = [\<lparr>x = 0, y = 0, hp = 100, active = True\<rparr>, \<lparr>x = 1, y = 0, hp = 0, active = True\<rparr>,
                 \<lparr>x = 2, y = 0, hp = 100, active = True\<rparr>, \<lparr>x = - 1, y = - 1, hp = 100, active = False\<rparr>],
      clientCount = 3, g_clientSockets = [Some 10, None, Some 12, None], closed = [11], sent = S\<rparr>)"
  "snapshot (state_of (handleCommand healthy 2 ''MOVE UP''
     \<lparr>grid = [''A...+'', ''B..+.'', ''C.#+.'', ''.+...'', ''.....''],
      players = [\<lparr>x = 0, y = 0, hp = 100, active = True\<rparr>, \<lparr>x = 1, y = 0, hp = 0, active = True\<rparr>,
                 \<lparr>x = 2, y = 0, hp = 100, active = True\<rparr>, \<lparr>x = - 1, y = - 1, hp = 100, active = False\<rparr>],
      clientCount = 3, g_clientSockets = [Some 10, None, Some 12, None], closed = [11], sent = S\<rparr>))
   = ([''A...+'', ''...+.'', ''C.#+.'', ''.+...'', ''.....''],
      [\<lparr>x = 0, y = 0, hp = 100, active = True\<rparr>, \<lparr>x = 1, y = 0, hp = 0, active = True\<rparr>,
       \<lparr>x = 2, y = 0, hp = 100, active = True\<rparr>, \<lparr>x = - 1, y = - 1, hp = 100, active = False\<rparr>],
      3, [Some 10, None, Some 12, None], [11])"
  by code_simp+

lemma move_up_entered:
  "completed (handleCommand healthy 2 ''MOVE UP''
     \<lparr>grid = [''A...+'', ''...+.'', ''C.#+.'', ''.+...'', ''.....''],
      players = [\<lparr>x = 0, y = 0, hp = 100, active = True\<rparr>, \<lparr>x = 1, y = 0, hp = 0, active = True\<rparr>,
                 \<lparr>x = 2, y = 0, hp = 100, active = True\<rparr>, \<lparr>x = - 1, y = - 1, hp = 100, active = False\<rparr>],
      clientCount = 3, g_clientSockets = [Some 10, None, Some 12, None], closed = [11], sent = S\<rparr>)"
  "snapshot (state_of (handleCommand healthy 2 ''MOVE UP''
     \<lparr>grid = [''A...+'', ''...+.'', ''C.#+.'', ''.+...'', ''.....''],
      players = [\<lparr>x = 0, y = 0, hp = 100, active = True\<rparr>, \<lparr>x = 1, y = 0, hp = 0, active = True\<rparr>,
                 \<lparr>x = 2, y = 0, hp = 100, active = True\<rparr>, \<lparr>x = - 1, y = - 1, hp = 100, active = False\<rparr>],
      clientCount = 3, g_clientSockets = [Some 10, None, Some 12, None], closed = [11], sent = S\<rparr>))
   = ([''A...+'', ''C..+.'', ''..#+.'', ''.+...'', ''.....''],
      [\<lparr>x = 0, y = 0, hp = 100, active = True\<rparr>, \<lparr>x = 1, y = 0, hp = 0, active = True\<rparr>,
       \<lparr>x = 1, y = 0, hp = 100, active = True\<rparr>, \<lparr>x = - 1, y = - 1, hp = 100, active = False\<rparr>],
      3, [Some 10, None, Some 12, None], [11])"
  by code_simp+


lemma unburied_eq:
  "handleCommand healthy 0 ''ATTACK'' worn_down = Raised AttributeError unburied"
  "snapshot unburied =
     ([''A...+'', ''B..+.'', ''C.#+.'', ''.+...'', ''.....''],
      [\<lparr>x = 0, y = 0, hp = 100, active = True\<rparr>, \<lparr>x = 1, y = 0, hp = 0, active = True\<rparr>,
       \<lparr>x = 2, y = 0, hp = 100, active = True\<rparr>, \<lparr>x = - 1, y = - 1, hp = 100, active = False\<rparr>],
      3, [Some 10, None, Some 12, None], [11])"
  "sent unburied = sent worn_down"
proof -
  define S where "S = sent worn_down"
  have w: "worn_down =
     \<lparr>grid = [''A...+'', ''B..+.'', ''C.#+.'', ''.+...'', ''.....''],
      players = [\<lparr>x = 0, y = 0, hp = 100, active = True\<rparr>, \<lparr>x = 1, y = 0, hp = 10, active = True\<rparr>,
                 \<lparr>x = 2, y = 0, hp = 100, active = True\<rparr>, \<lparr>x = - 1, y = - 1, hp = 100, active = False\<rparr>],
      clientCount = 3, g_clientSockets = [Some 10, None, Some 12, None], closed = [11], sent = S\<rparr>"
    unfolding S_def by (rule snapshot_eq[OF worn_down_snapshot])
  have r: "handleCommand healthy 0 ''ATTACK'' worn_down = Raised AttributeError
     \<lparr>grid = [''A...+'', ''B..+.'', ''C.#+.'', ''.+...'', ''.....''],
      players = [\<lparr>x = 0, y = 0, hp = 100, active = True\<rparr>, \<lparr>x = 1, y = 0, hp = 0, active = True\<rparr>,
                 \<lparr>x = 2, y = 0, hp = 100, active = True\<rparr>, \<lparr>x = - 1, y = - 1, hp = 100, active = False\<rparr>],
      clientCount = 3, g_clientSockets = [Some 10, None, Some 12, None], closed = [11], sent = S\<rparr>"
    unfolding w by (rule attack_without_socket)
  have u: "unburied =
     \<lparr>grid = [''A...+'', ''B..+.'', ''C.#+.'', ''.+...'', ''.....''],
      players = [\<lparr>x = 0, y = 0, hp = 100, active = True\<rparr>, \<lparr>x = 1, y = 0, hp = 0, active = True\<rparr>,
                 \<lparr>x = 2, y = 0, hp = 100, active = True\<rparr>, \<lparr>x = - 1, y = - 1, hp = 100, active = False\<rparr>],
      clientCount = 3, g_clientSockets = [Some 10, None, Some 12, None], closed = [11], sent = S\<rparr>"
    unfolding unburied_def r by simp
  show "handleCommand healthy 0 ''ATTACK'' worn_down = Raised AttributeError unburied"
    unfolding u by (rule r)
  show "snapshot unburied =
     ([''A...+'', ''B..+.'', ''C.#+.'', ''.+...'', ''.....''],
      [\<lparr>x = 0, y = 0, hp = 100, active = True\<rparr>, \<lparr>x = 1, y = 0, hp = 0, active = True\<rparr>,
       \<lparr>x = 2, y = 0, hp = 100, active = True\<rparr>, \<lparr>x = - 1, y = - 1, hp = 100, active = False\<rparr>],
      3, [Some 10, None, Some 12, None], [11])"
    unfolding u by (simp add: snapshot_def)
  show "sent unburied = sent worn_down"
    unfolding u S_def by simp
qed

text \<open>
  C4: the elimination of ATTACK is not guarded the way the release of QUIT is. Three
  clients have joined; the state broadcast of player 0's first ATTACK fails on socket 11, which
  frees the registry entry of player 1 and leaves that player active; eight more attacks bring
  player 1 to hp 10. The next ATTACK of player 0 takes the last 10 hp and then raises
  AttributeError on the empty registry entry: player 1 stays active with hp 0, the occupant
  count stays 3, no death notice is sent and no state is broadcast.
\<close>

theorem elimination_fails_without_socket:
  "completed (run_commands (replicate 9 (broken_11, 0, ''ATTACK'')) three_players)
   \<and> snapshot worn_down =
       ([''A...+'', ''B..+.'', ''C.#+.'', ''.+...'', ''.....''],
        [\<lparr>x = 0, y = 0, hp = 100, active = True\<rparr>, \<lparr>x = 1, y = 0, hp = 10, active = True\<rparr>,
         \<lparr>x = 2, y = 0, hp = 100, active = True\<rparr>, \<lparr>x = - 1, y = - 1, hp = 100, active = False\<rparr>],
        3, [Some 10, None, Some 12, None], [11])
   \<and> handleCommand healthy 0 ''ATTACK'' worn_down = Raised AttributeError unburied
   \<and> snapshot unburied =
       ([''A...+'', ''B..+.'', ''C.#+.'', ''.+...'', ''.....''],
        [\<lparr>x = 0, y = 0, hp = 100, active = True\<rparr>, \<lparr>x = 1, y = 0, hp = 0, active = True\<rparr>,
         \<lparr>x = 2, y = 0, hp = 100, active = True\<rparr>, \<lparr>x = - 1, y = - 1, hp = 100, active = False\<rparr>],
        3, [Some 10, None, Some 12, None], [11])
   \<and> sent unburied = sent worn_down"
proof -
  have c: "completed (run_commands (replicate 9 (broken_11, 0, ''ATTACK'')) three_players)"
    by code_simp
  show ?thesis using c worn_down_snapshot unburied_eq by simp
qed

text \<open>
  C3, as stated, fails in the state \<open>unburied\<close>. Player 1 is active and stands on (1,0), the
  cell above player 2. The first MOVE UP of player 2 is refused, yet the grid changes: the
  marker of player 1 is gone. The second MOVE UP is applied, onto the cell of player 1.
\<close>

theorem move_enters_occupied_cell:
  "snapshot unburied =
       ([''A...+'', ''B..+.'', ''C.#+.'', ''.+...'', ''.....''],
        [\<lparr>x = 0, y = 0, hp = 100, active = True\<rparr>, \<lparr>x = 1, y = 0, hp = 0, active = True\<rparr>,
         \<lparr>x = 2, y = 0, hp = 100, active = True\<rparr>, \<lparr>x = - 1, y = - 1, hp = 100, active = False\<rparr>],
        3, [Some 10, None, Some 12, None], [11])
   \<and> completed (handleCommand healthy 2 ''MOVE UP'' unburied)
   \<and> snapshot (state_of (handleCommand healthy 2 ''MOVE UP'' unburied)) =
       ([''A...+'', ''...+.'', ''C.#+.'', ''.+...'', ''.....''],
        [\<lparr>x = 0, y = 0, hp = 100, active = True\<rparr>, \<lparr>x = 1, y = 0, hp = 0, active = True\<rparr>,
         \<lparr>x = 2, y = 0, hp = 100, active = True\<rparr>, \<lparr>x = - 1, y = - 1, hp = 100, active = False\<rparr>],
        3, [Some 10, None, Some 12, None], [11])
   \<and> completed (handleCommand healthy 2 ''MOVE UP''
         (state_of (handleCommand healthy 2 ''MOVE UP'' unburied)))
   \<and> snapshot (state_of (handleCommand healthy 2 ''MOVE UP''
         (state_of (handleCommand healthy 2 ''MOVE UP'' unburied)))) =
       ([''A...+'', ''C..+.'', ''..#+.'', ''.+...'', ''.....''],
        [\<lparr>x = 0, y = 0, hp = 100, active = True\<rparr>, \<lparr>x = 1, y = 0, hp = 0, active = True\<rparr>,
         \<lparr>x = 1, y = 0, hp = 100, active = True\<rparr>, \<lparr>x = - 1, y = - 1, hp = 100, active = False\<rparr>],
        3, [Some 10, None, Some 12, None], [11])"
proof -
  define S where "S = sent unburied"
  have u: "unburied =
     \<lparr>grid = [''A...+'', ''B..+.'', ''C.#+.'', ''.+...'', ''.....''],
      players = [\<lparr>x = 0, y = 0, hp = 100, active = True\<rparr>, \<lparr>x = 1, y = 0, hp = 0, active = True\<rparr>,
                 \<lparr>x = 2, y = 0, hp = 100, active = True\<rparr>, \<lparr>x = - 1, y = - 1, hp = 100, active = False\<rparr>],
      clientCount = 3, g_clientSockets = [Some 10, None, Some 12, None], closed = [11], sent = S\<rparr>"
    unfolding S_def by (rule snapshot_eq[OF unburied_eq(2)])
  define st1 where "st1 = state_of (handleCommand healthy 2 ''MOVE UP'' unburied)"
  have c1: "completed (handleCommand healthy 2 ''MOVE UP'' unburied)"
    unfolding u by (rule move_up_blocked(1))
  have s1: "snapshot st1 =
       ([''A...+'', ''...+.'', ''C.#+.'', ''.+...'', ''.....''],
        [\<lparr>x = 0, y = 0, hp = 100, active = True\<rparr>, \<lparr>x = 1, y = 0, hp = 0, active = True\<rparr>,
         \<lparr>x = 2, y = 0, hp = 100, active = True\<rparr>, \<lparr>x = - 1, y = - 1, hp = 100, active = False\<rparr>],
        3, [Some 10, None, Some 12, None], [11])"
    unfolding st1_def u by (rule move_up_blocked(2))
  define S1 where "S1 = sent st1"
  have e1: "st1 =
     \<lparr>grid = [''A...+'', ''...+.'', ''C.#+.'', ''.+...'', ''.....''],
      players = [\<lparr>x = 0, y = 0, hp = 100, active = True\<rparr>, \<lparr>x = 1, y = 0, hp = 0, active = True\<rparr>,
                 \<lparr>x = 2, y = 0, hp = 100, active = True\<rparr>, \<lparr>x = - 1, y = - 1, hp = 100, active = False\<rparr>],
      clientCount = 3, g_clientSockets = [Some 10, None, Some 12, None], closed = [11], sent = S1\<rparr>"
    unfolding S1_def by (rule snapshot_eq[OF s1])
  have c2: "completed (handleCommand healthy 2 ''MOVE UP'' st1)"
    unfolding e1 by (rule move_up_entered(1))
  have s2: "snapshot (state_of (handleCommand healthy 2 ''MOVE UP'' st1)) =
       ([''A...+'', ''C..+.'', ''..#+.'', ''.+...'', ''.....''],
        [\<lparr>x = 0, y = 0, hp = 100, active = True\<rparr>, \<lparr>x = 1, y = 0, hp = 0, active = True\<rparr>,
         \<lparr>x = 1, y = 0, hp = 100, active = True\<rparr>, \<lparr>x = - 1, y = - 1, hp = 100, active = False\<rparr>],
        3, [Some 10, None, Some 12, None], [11])"
    unfolding e1 by (rule move_up_entered(2))
  show ?thesis
    using unburied_eq(2) c1 s1 c2 s2 unfolding st1_def by (intro conjI)
qed

end
